theory Spec2Isabelle
  imports Complex_Main
begin

section \<open>The memoizing call cache (\<^verbatim>\<open>data_analis/utils.py\<close>)\<close>

text \<open>
  \<^verbatim>\<open>cache_decorator(func)\<close> creates one dictionary \<^verbatim>\<open>cache = {}\<close> per decorated
  function and returns \<^verbatim>\<open>wrapper\<close>:
  \<^verbatim>\<open>
    key = (args, tuple(kwargs.items()))
    if key not in cache:
        cache[key] = func(*args, **kwargs)
    return cache[key]
  \<close>
  The positional arguments are a tuple (a list here); \<^verbatim>\<open>kwargs\<close> is a dictionary that
  keeps the order in which the call site wrote the keyword arguments, so
  \<^verbatim>\<open>tuple(kwargs.items())\<close> is the list of (name, value) pairs in call-site order.
  Argument values are taken from a type with equality (the hashable values of Python).
  The wrapped function may have effects of its own: it runs on a world \<open>'w\<close> and
  returns either an exception (\<open>Inl\<close>) or a value (\<open>Inr\<close>). The dictionary lives in the
  closure of the wrapper, so the wrapped function does not see it.
\<close>

type_synonym 'a call_key = "'a list \<times> (string \<times> 'a) list"

type_synonym ('a, 'v) cache = "'a call_key \<rightharpoonup> 'v"

definition make_key :: "'a list \<Rightarrow> (string \<times> 'a) list \<Rightarrow> 'a call_key" where
  "make_key args kwargs = (args, kwargs)"

definition wrapper ::
  "('a list \<Rightarrow> (string \<times> 'a) list \<Rightarrow> 'w \<Rightarrow> ('e + 'v) \<times> 'w) \<Rightarrow>
   'a list \<Rightarrow> (string \<times> 'a) list \<Rightarrow> ('a, 'v) cache \<times> 'w \<Rightarrow> ('e + 'v) \<times> (('a, 'v) cache \<times> 'w)" where
  "wrapper func args kwargs st =
     (case st of (cache, w) \<Rightarrow>
        (let key = make_key args kwargs in
           (case cache key of
              Some v \<Rightarrow> (Inr v, (cache, w))
            | None \<Rightarrow>
                (case func args kwargs w of
                   (Inl e, w') \<Rightarrow> (Inl e, (cache, w'))
                 | (Inr v, w') \<Rightarrow> (Inr v, (cache(key \<mapsto> v), w'))))))"

text \<open>
  A call counter on a wrapped function: every execution of the function adds one to a
  counter kept beside the function's own world.
\<close>

definition counted ::
  "('a list \<Rightarrow> (string \<times> 'a) list \<Rightarrow> 'w \<Rightarrow> ('e + 'v) \<times> 'w) \<Rightarrow>
   'a list \<Rightarrow> (string \<times> 'a) list \<Rightarrow> 'w \<times> nat \<Rightarrow> ('e + 'v) \<times> ('w \<times> nat)" where
  "counted func args kwargs s =
     (case s of (w, n) \<Rightarrow> (case func args kwargs w of (r, w') \<Rightarrow> (r, (w', Suc n))))"

definition calls :: "('a, 'v) cache \<times> ('w \<times> nat) \<Rightarrow> nat" where
  "calls st = snd (snd st)"

definition store :: "('a, 'v) cache \<times> 'w \<Rightarrow> ('a, 'v) cache" where
  "store st = fst st"

section \<open>The pandas operations the processor calls\<close>

text \<open>
  The processor (\<^verbatim>\<open>data_analis/data_processing.py\<close>) computes everything through
  pandas. What pandas does with rows, labels, missing values and comparisons is modelled
  here as it is; the results of its float64 arithmetic (a difference, a window mean, a
  correlation coefficient) are left open: they are taken from a parameter \<open>np\<close>, so
  that every theorem holds whatever these results are.

  A float64 is NaN, an infinity or a finite number. A value of a column is an integer
  (a column of dtype int64) or a float64 (dtype float64). pandas has no missing value
  for int64: wherever it has to write NaN into an integer column it converts the
  column to float64, which rounds an integer of magnitude above \<open>2^53\<close> to the nearest
  float64 (ties to even).
\<close>

datatype f64 = NaN | NegInf | Fin real | PosInf

datatype cell = I int | F f64

function scale_of :: "nat \<Rightarrow> nat" where
  "scale_of a = (if a < 2 ^ 53 then 0 else Suc (scale_of (a div 2)))"
  by pat_completeness auto
termination
  by (relation "measure id") auto

definition round_nat :: "nat \<Rightarrow> nat" where
  "round_nat a =
     (let e = scale_of a;
          q = a div 2 ^ e;
          r = a mod 2 ^ e
      in (if 2 ^ e < 2 * r \<or> (2 * r = 2 ^ e \<and> odd q) then Suc q else q) * 2 ^ e)"

definition int_to_f64 :: "int \<Rightarrow> real" where
  "int_to_f64 x = (if x < 0 then - real (round_nat (nat (- x))) else real (round_nat (nat x)))"

fun as_f64 :: "cell \<Rightarrow> f64" where
  "as_f64 (I x) = Fin (int_to_f64 x)"
| "as_f64 (F v) = v"

definition notna :: "f64 \<Rightarrow> bool" where
  "notna v = (v \<noteq> NaN)"

text \<open>Comparison of float64 values: false whenever a side is NaN.\<close>

fun flt :: "f64 \<Rightarrow> f64 \<Rightarrow> bool" where
  "flt NaN _ = False"
| "flt _ NaN = False"
| "flt PosInf _ = False"
| "flt _ NegInf = False"
| "flt NegInf _ = True"
| "flt _ PosInf = True"
| "flt (Fin x) (Fin y) = (x < y)"

text \<open>
  \<^verbatim>\<open>a < b\<close> on two values as numpy compares two arrays: two integers are compared as
  integers; when one side is a float64 the other is converted to float64 first.
\<close>

fun lt :: "cell \<Rightarrow> cell \<Rightarrow> bool" where
  "lt (I a) (I b) = (a < b)"
| "lt a b = flt (as_f64 a) (as_f64 b)"

definition gt :: "cell \<Rightarrow> cell \<Rightarrow> bool" where
  "gt a b = lt b a"

text \<open>
  The float64 arithmetic of numpy and pandas, as a parameter: \<open>sub_op a b\<close> is the
  element \<^verbatim>\<open>a - b\<close> of \<^verbatim>\<open>diff()\<close>; \<open>mean_op w xs i\<close> is the mean that
  \<^verbatim>\<open>rolling(w).mean()\<close> computes at position \<open>i\<close> of the float64 values \<open>xs\<close> when the
  window there is full; \<open>corr_op ps\<close> is \<^verbatim>\<open>numpy.corrcoef(a, b)[0, 1]\<close> for the paired
  values \<open>ps\<close>.
\<close>

record numerics =
  sub_op :: "cell \<Rightarrow> cell \<Rightarrow> f64"
  mean_op :: "nat \<Rightarrow> f64 list \<Rightarrow> nat \<Rightarrow> f64"
  corr_op :: "(f64 \<times> f64) list \<Rightarrow> f64"

text \<open>
  A Series is its rows, (label, value) pairs in order; a DataFrame is its index and its
  columns in insertion order, every column as long as the index.
\<close>

type_synonym 't series = "('t \<times> cell) list"

record 't frame =
  index :: "'t list"
  columns :: "(string \<times> cell list) list"

datatype py_error = KeyError | ValueError | TypeError | OverflowError

definition labels :: "'t series \<Rightarrow> 't list" where
  "labels s = map fst s"

definition vals :: "'t series \<Rightarrow> cell list" where
  "vals s = map snd s"

text \<open>\<^verbatim>\<open>df[name]\<close>: the column as a Series over the frame's index, KeyError when absent.\<close>

definition getitem :: "'t frame \<Rightarrow> string \<Rightarrow> py_error + 't series" where
  "getitem df name =
     (case map_of (columns df) name of
        None \<Rightarrow> Inl KeyError
      | Some vs \<Rightarrow> Inr (zip (index df) vs))"

text \<open>
  \<^verbatim>\<open>Series.shift(k)\<close>: the values move \<open>k\<close> positions down (up when \<open>k\<close> is negative), the
  labels stay, and the vacated positions are NaN, so the values become float64.
  \<^verbatim>\<open>shift(0)\<close> is a copy. When there is something to move, \<open>k\<close> is converted to
  numpy's index type, a 64-bit integer, which raises OverflowError when \<open>k\<close> does not
  fit.
\<close>

definition index_range :: "int \<Rightarrow> bool" where
  "index_range k = (- (2 ^ 63) \<le> k \<and> k < 2 ^ 63)"

definition shift_vals :: "int \<Rightarrow> cell list \<Rightarrow> cell list" where
  "shift_vals k vs =
     (let n = length vs;
          fs = map (\<lambda>c. F (as_f64 c)) vs
      in if k = 0 then vs
         else if 0 < k then replicate (min (nat k) n) (F NaN) @ take (n - nat k) fs
         else drop (nat (- k)) fs @ replicate (min (nat (- k)) n) (F NaN))"

definition shift :: "int \<Rightarrow> 't series \<Rightarrow> py_error + 't series" where
  "shift k s =
     (if k \<noteq> 0 \<and> s \<noteq> [] \<and> \<not> index_range k then Inl OverflowError
      else Inr (zip (labels s) (shift_vals k (vals s))))"

text \<open>\<^verbatim>\<open>a < b\<close>, \<^verbatim>\<open>a > b\<close> on two Series over the same index, and \<^verbatim>\<open>m1 & m2\<close> on masks.\<close>

definition series_lt :: "'t series \<Rightarrow> 't series \<Rightarrow> bool list" where
  "series_lt a b = map2 lt (vals a) (vals b)"

definition series_gt :: "'t series \<Rightarrow> 't series \<Rightarrow> bool list" where
  "series_gt a b = map2 gt (vals a) (vals b)"

definition mask_and :: "bool list \<Rightarrow> bool list \<Rightarrow> bool list" where
  "mask_and m1 m2 = map2 (\<and>) m1 m2"

text \<open>\<^verbatim>\<open>s[mask]\<close>: the rows of \<open>s\<close> where the mask is true, labels and values kept.\<close>

definition mask_select :: "'t series \<Rightarrow> bool list \<Rightarrow> 't series" where
  "mask_select s m = map fst (filter snd (zip s m))"

text \<open>
  \<^verbatim>\<open>Series.rolling(window=w).mean()\<close>. A negative window is refused with ValueError when
  the window is built; zero is accepted; a window that does not fit numpy's 64-bit
  index type is an error when the bounds of the windows are computed. The values are
  taken as float64. The window at
  position \<open>i\<close> holds the last \<open>w\<close> values up to \<open>i\<close> (fewer at the start);
  \<^verbatim>\<open>min_periods\<close> defaults to \<open>w\<close>, and the result is the mean when the window holds at
  least \<open>w\<close> values that are not NaN, and at least one, NaN otherwise.
\<close>

definition window_at :: "nat \<Rightarrow> nat \<Rightarrow> 'a list \<Rightarrow> 'a list" where
  "window_at w i vs = drop (Suc i - w) (take (Suc i) vs)"

definition rolling_at :: "numerics \<Rightarrow> nat \<Rightarrow> f64 list \<Rightarrow> nat \<Rightarrow> f64" where
  "rolling_at np w xs i =
     (let nobs = length (filter notna (window_at w i xs))
      in if w \<le> nobs \<and> 0 < nobs then mean_op np w xs i else NaN)"

definition rolling_column :: "numerics \<Rightarrow> nat \<Rightarrow> cell list \<Rightarrow> cell list" where
  "rolling_column np w vs = map (\<lambda>i. F (rolling_at np w (map as_f64 vs) i)) [0..<length vs]"

definition rolling_mean :: "numerics \<Rightarrow> int \<Rightarrow> 't series \<Rightarrow> py_error + 't series" where
  "rolling_mean np w s =
     (if w < 0 then Inl ValueError
      else if \<not> index_range w then Inl OverflowError
      else Inr (zip (labels s) (rolling_column np (nat w) (vals s))))"

text \<open>\<^verbatim>\<open>Series.diff()\<close>: every value minus the one before it, NaN at the first row.\<close>

definition diff_at :: "numerics \<Rightarrow> cell list \<Rightarrow> nat \<Rightarrow> f64" where
  "diff_at np vs i = (if i = 0 then NaN else sub_op np (vs ! i) (vs ! (i - 1)))"

definition diff_column :: "numerics \<Rightarrow> cell list \<Rightarrow> cell list" where
  "diff_column np vs = map (\<lambda>i. F (diff_at np vs i)) [0..<length vs]"

definition diff :: "numerics \<Rightarrow> 't series \<Rightarrow> 't series" where
  "diff np s = zip (labels s) (diff_column np (vals s))"

text \<open>
  \<^verbatim>\<open>Series.autocorr(lag)\<close> is \<^verbatim>\<open>self.corr(self.shift(lag))\<close>. \<^verbatim>\<open>corr\<close> takes both sides
  as float64, keeps the rows where neither value is NaN, answers NaN when no row is
  left, and otherwise \<^verbatim>\<open>numpy.corrcoef\<close> of the rows kept.
\<close>

definition valid_pairs :: "f64 list \<Rightarrow> f64 list \<Rightarrow> (f64 \<times> f64) list" where
  "valid_pairs a b = filter (\<lambda>p. notna (fst p) \<and> notna (snd p)) (zip a b)"

definition corr :: "numerics \<Rightarrow> cell list \<Rightarrow> cell list \<Rightarrow> f64" where
  "corr np a b =
     (let ps = valid_pairs (map as_f64 a) (map as_f64 b)
      in if ps = [] then NaN else corr_op np ps)"

definition autocorr_value :: "numerics \<Rightarrow> int \<Rightarrow> 't series \<Rightarrow> f64" where
  "autocorr_value np lag s = corr np (vals s) (shift_vals lag (vals s))"

definition autocorr :: "numerics \<Rightarrow> int \<Rightarrow> 't series \<Rightarrow> py_error + f64" where
  "autocorr np lag s =
     (case shift lag s of
        Inl e \<Rightarrow> Inl e
      | Inr shifted \<Rightarrow> Inr (corr np (vals s) (vals shifted)))"

section \<open>The series processor (\<^verbatim>\<open>WeatherDataProcessor\<close>)\<close>

text \<open>
  The bodies of the methods, as functions of \<^verbatim>\<open>self.data\<close>. Every one of them reads
  \<^verbatim>\<open>self.data['temperature']\<close> first, which raises KeyError when the column is absent.
\<close>

definition moving_average_body :: "numerics \<Rightarrow> 't frame \<Rightarrow> int \<Rightarrow> py_error + 't series" where
  "moving_average_body np df window =
     (case getitem df ''temperature'' of
        Inl e \<Rightarrow> Inl e
      | Inr t \<Rightarrow> rolling_mean np window t)"

definition differential_body :: "numerics \<Rightarrow> 't frame \<Rightarrow> py_error + 't series" where
  "differential_body np df =
     (case getitem df ''temperature'' of
        Inl e \<Rightarrow> Inl e
      | Inr t \<Rightarrow> Inr (diff np t))"

definition autocorrelation_body :: "numerics \<Rightarrow> 't frame \<Rightarrow> int \<Rightarrow> py_error + f64" where
  "autocorrelation_body np df lag =
     (case getitem df ''temperature'' of
        Inl e \<Rightarrow> Inl e
      | Inr t \<Rightarrow> autocorr np lag t)"

definition find_extremes_body :: "'t frame \<Rightarrow> py_error + 't series \<times> 't series" where
  "find_extremes_body df =
     (case getitem df ''temperature'' of
        Inl e \<Rightarrow> Inl e
      | Inr t \<Rightarrow>
          (case shift 1 t of
             Inl e \<Rightarrow> Inl e
           | Inr down \<Rightarrow>
               (case shift (- 1) t of
                  Inl e \<Rightarrow> Inl e
                | Inr up \<Rightarrow>
                    (let maxima = mask_select t (mask_and (series_lt down t) (series_lt up t));
                         minima = mask_select t (mask_and (series_gt down t) (series_gt up t))
                     in Inr (maxima, minima)))))"

text \<open>
  Assignment to a column of a DataFrame. \<^verbatim>\<open>df[name] = series\<close> aligns the Series to the
  frame's index: its values are taken as they are when its labels are the frame's index
  (or the frame's index is empty); otherwise every label of the frame gets the Series'
  value at that label and NaN where the Series has no such label (the values become
  float64 when a NaN is written), and a Series with a repeated label cannot be aligned
  (ValueError). \<^verbatim>\<open>df[name] = list\<close> takes the list positionally. Both need as many
  values as the frame has rows (ValueError otherwise). An existing column is replaced in
  place, a new one is appended.
\<close>

fun set_column :: "string \<Rightarrow> cell list \<Rightarrow> (string \<times> cell list) list \<Rightarrow> (string \<times> cell list) list" where
  "set_column name vs [] = [(name, vs)]"
| "set_column name vs (c # cs) = (if fst c = name then (name, vs) # cs else c # set_column name vs cs)"

definition setitem_list :: "'t frame \<Rightarrow> string \<Rightarrow> cell list \<Rightarrow> py_error + 't frame" where
  "setitem_list df name vs =
     (if length vs = length (index df) then Inr (df\<lparr>columns := set_column name vs (columns df)\<rparr>)
      else Inl ValueError)"

definition reindex :: "'t series \<Rightarrow> 't list \<Rightarrow> cell list" where
  "reindex s target =
     (let found = map (map_of s) target
      in if None \<in> set found
         then map (\<lambda>x. case x of None \<Rightarrow> F NaN | Some c \<Rightarrow> F (as_f64 c)) found
         else map (\<lambda>x. case x of None \<Rightarrow> F NaN | Some c \<Rightarrow> c) found)"

definition setitem_series :: "'t frame \<Rightarrow> string \<Rightarrow> 't series \<Rightarrow> py_error + 't frame" where
  "setitem_series df name s =
     (if labels s = index df \<or> index df = [] then setitem_list df name (vals s)
      else if \<not> distinct (labels s) then Inl ValueError
      else setitem_list df name (reindex s (index df)))"

text \<open>
  The cached methods. A processor instance is an object with an identity; it hashes and
  compares by identity, and \<^verbatim>\<open>self\<close> is the first positional argument of every call, so
  it is the first component of every key. \<open>objects\<close> gives the \<^verbatim>\<open>data\<close> attribute of each
  instance, which no method assigns. Each decorated method has a dictionary of its own,
  created once when the class body runs and shared by all instances.
\<close>

datatype pyval = Obj nat | PyInt int

record 't state =
  objects :: "nat \<Rightarrow> 't frame"
  ma_cache :: "(pyval, 't series) cache"
  diff_cache :: "(pyval, 't series) cache"
  ac_cache :: "(pyval, f64) cache"
  fe_cache :: "(pyval, 't series \<times> 't series) cache"
  pd_cache :: "(pyval, 't frame) cache"

text \<open>
  \<^verbatim>\<open>func(*args, **kwargs)\<close> for each undecorated method: the arguments are bound to the
  parameters (\<^verbatim>\<open>self\<close>, then \<^verbatim>\<open>window\<close> or \<^verbatim>\<open>lag\<close>, by position or by name); a call that
  does not fit the signature raises TypeError.
\<close>

definition bind0 :: "pyval list \<Rightarrow> (string \<times> pyval) list \<Rightarrow> py_error + nat" where
  "bind0 args kwargs =
     (case args of
        [Obj self] \<Rightarrow> (if kwargs = [] then Inr self else Inl TypeError)
      | _ \<Rightarrow> Inl TypeError)"

definition bind1 :: "string \<Rightarrow> pyval list \<Rightarrow> (string \<times> pyval) list \<Rightarrow> py_error + nat \<times> int" where
  "bind1 param args kwargs =
     (case args of
        [Obj self, PyInt n] \<Rightarrow> (if kwargs = [] then Inr (self, n) else Inl TypeError)
      | [Obj self] \<Rightarrow>
          (case kwargs of
             [(name, PyInt n)] \<Rightarrow> (if name = param then Inr (self, n) else Inl TypeError)
           | _ \<Rightarrow> Inl TypeError)
      | _ \<Rightarrow> Inl TypeError)"

definition moving_average_func ::
  "numerics \<Rightarrow> (nat \<Rightarrow> 't frame) \<Rightarrow> pyval list \<Rightarrow> (string \<times> pyval) list \<Rightarrow> unit \<Rightarrow>
   (py_error + 't series) \<times> unit" where
  "moving_average_func np objs args kwargs u =
     (case bind1 ''window'' args kwargs of
        Inl e \<Rightarrow> (Inl e, u)
      | Inr (self, window) \<Rightarrow> (moving_average_body np (objs self) window, u))"

definition differential_func ::
  "numerics \<Rightarrow> (nat \<Rightarrow> 't frame) \<Rightarrow> pyval list \<Rightarrow> (string \<times> pyval) list \<Rightarrow> unit \<Rightarrow>
   (py_error + 't series) \<times> unit" where
  "differential_func np objs args kwargs u =
     (case bind0 args kwargs of
        Inl e \<Rightarrow> (Inl e, u)
      | Inr self \<Rightarrow> (differential_body np (objs self), u))"

definition autocorrelation_func ::
  "numerics \<Rightarrow> (nat \<Rightarrow> 't frame) \<Rightarrow> pyval list \<Rightarrow> (string \<times> pyval) list \<Rightarrow> unit \<Rightarrow>
   (py_error + f64) \<times> unit" where
  "autocorrelation_func np objs args kwargs u =
     (case bind1 ''lag'' args kwargs of
        Inl e \<Rightarrow> (Inl e, u)
      | Inr (self, lag) \<Rightarrow> (autocorrelation_body np (objs self) lag, u))"

definition find_extremes_func ::
  "(nat \<Rightarrow> 't frame) \<Rightarrow> pyval list \<Rightarrow> (string \<times> pyval) list \<Rightarrow> unit \<Rightarrow>
   (py_error + 't series \<times> 't series) \<times> unit" where
  "find_extremes_func objs args kwargs u =
     (case bind0 args kwargs of
        Inl e \<Rightarrow> (Inl e, u)
      | Inr self \<Rightarrow> (find_extremes_body (objs self), u))"

text \<open>
  The decorated methods: \<^verbatim>\<open>p.moving_average(...)\<close> calls the wrapper with \<^verbatim>\<open>p\<close> put in
  front of the positional arguments, on the dictionary of that method.
\<close>

definition moving_average ::
  "numerics \<Rightarrow> nat \<Rightarrow> pyval list \<Rightarrow> (string \<times> pyval) list \<Rightarrow> 't state \<Rightarrow>
   (py_error + 't series) \<times> 't state" where
  "moving_average np self args kwargs st =
     (case wrapper (moving_average_func np (objects st)) (Obj self # args) kwargs (ma_cache st, ()) of
        (r, (c, u)) \<Rightarrow> (r, st\<lparr>ma_cache := c\<rparr>))"

definition differential ::
  "numerics \<Rightarrow> nat \<Rightarrow> pyval list \<Rightarrow> (string \<times> pyval) list \<Rightarrow> 't state \<Rightarrow>
   (py_error + 't series) \<times> 't state" where
  "differential np self args kwargs st =
     (case wrapper (differential_func np (objects st)) (Obj self # args) kwargs (diff_cache st, ()) of
        (r, (c, u)) \<Rightarrow> (r, st\<lparr>diff_cache := c\<rparr>))"

definition autocorrelation ::
  "numerics \<Rightarrow> nat \<Rightarrow> pyval list \<Rightarrow> (string \<times> pyval) list \<Rightarrow> 't state \<Rightarrow>
   (py_error + f64) \<times> 't state" where
  "autocorrelation np self args kwargs st =
     (case wrapper (autocorrelation_func np (objects st)) (Obj self # args) kwargs (ac_cache st, ()) of
        (r, (c, u)) \<Rightarrow> (r, st\<lparr>ac_cache := c\<rparr>))"

definition find_extremes ::
  "nat \<Rightarrow> pyval list \<Rightarrow> (string \<times> pyval) list \<Rightarrow> 't state \<Rightarrow>
   (py_error + 't series \<times> 't series) \<times> 't state" where
  "find_extremes self args kwargs st =
     (case wrapper (find_extremes_func (objects st)) (Obj self # args) kwargs (fe_cache st, ()) of
        (r, (c, u)) \<Rightarrow> (r, st\<lparr>fe_cache := c\<rparr>))"

text \<open>
  \<^verbatim>\<open>autocorrelation_generator\<close> yields \<^verbatim>\<open>self.autocorrelation(lag)\<close> for
  \<^verbatim>\<open>lag in range(len(self.data))\<close>; \<^verbatim>\<open>list(...)\<close> runs it to the end, and an exception of
  one call ends it.
\<close>

fun autocorrelation_list ::
  "numerics \<Rightarrow> nat \<Rightarrow> nat list \<Rightarrow> 't state \<Rightarrow> (py_error + f64 list) \<times> 't state" where
  "autocorrelation_list np self [] st = (Inr [], st)"
| "autocorrelation_list np self (lag # lags) st =
     (case autocorrelation np self [PyInt (int lag)] [] st of
        (Inl e, st1) \<Rightarrow> (Inl e, st1)
      | (Inr v, st1) \<Rightarrow>
          (case autocorrelation_list np self lags st1 of
             (Inl e, st2) \<Rightarrow> (Inl e, st2)
           | (Inr vs, st2) \<Rightarrow> (Inr (v # vs), st2)))"

definition autocorrelation_generator ::
  "numerics \<Rightarrow> nat \<Rightarrow> 't state \<Rightarrow> (py_error + f64 list) \<times> 't state" where
  "autocorrelation_generator np self st =
     autocorrelation_list np self [0..<length (index (objects st self))] st"

text \<open>
  \<^verbatim>\<open>process_data\<close>: an empty frame over the input's index, then one column after the
  other; the first exception ends the method, with the dictionaries as they are by then.
\<close>

definition process_data_body :: "numerics \<Rightarrow> nat \<Rightarrow> 't state \<Rightarrow> (py_error + 't frame) \<times> 't state" where
  "process_data_body np self st =
     (let df = objects st self;
          result = \<lparr>index = index df, columns = []\<rparr>
      in case getitem df ''temperature'' of
           Inl e \<Rightarrow> (Inl e, st)
         | Inr t \<Rightarrow>
        (case setitem_series result ''temperature'' t of
           Inl e \<Rightarrow> (Inl e, st)
         | Inr result1 \<Rightarrow>
        (case moving_average np self [] [(''window'', PyInt 7)] st of
           (Inl e, st1) \<Rightarrow> (Inl e, st1)
         | (Inr ma, st1) \<Rightarrow>
        (case setitem_series result1 ''moving_average'' ma of
           Inl e \<Rightarrow> (Inl e, st1)
         | Inr result2 \<Rightarrow>
        (case differential np self [] [] st1 of
           (Inl e, st2) \<Rightarrow> (Inl e, st2)
         | (Inr d, st2) \<Rightarrow>
        (case setitem_series result2 ''differential'' d of
           Inl e \<Rightarrow> (Inl e, st2)
         | Inr result3 \<Rightarrow>
        (case autocorrelation_generator np self st2 of
           (Inl e, st3) \<Rightarrow> (Inl e, st3)
         | (Inr acs, st3) \<Rightarrow>
        (case setitem_list result3 ''autocorrelation'' (map F acs) of
           Inl e \<Rightarrow> (Inl e, st3)
         | Inr result4 \<Rightarrow>
        (case find_extremes self [] [] st3 of
           (Inl e, st4) \<Rightarrow> (Inl e, st4)
         | (Inr (maxima, minima), st4) \<Rightarrow>
        (case setitem_series result4 ''maxima'' maxima of
           Inl e \<Rightarrow> (Inl e, st4)
         | Inr result5 \<Rightarrow>
        (case setitem_series result5 ''minima'' minima of
           Inl e \<Rightarrow> (Inl e, st4)
         | Inr result6 \<Rightarrow> (Inr result6, st4))))))))))))"

definition process_data_func ::
  "numerics \<Rightarrow> pyval list \<Rightarrow> (string \<times> pyval) list \<Rightarrow> 't state \<Rightarrow> (py_error + 't frame) \<times> 't state" where
  "process_data_func np args kwargs st =
     (case bind0 args kwargs of
        Inl e \<Rightarrow> (Inl e, st)
      | Inr self \<Rightarrow> process_data_body np self st)"

definition process_data ::
  "numerics \<Rightarrow> nat \<Rightarrow> pyval list \<Rightarrow> (string \<times> pyval) list \<Rightarrow> 't state \<Rightarrow>
   (py_error + 't frame) \<times> 't state" where
  "process_data np self args kwargs st =
     (case wrapper (process_data_func np) (Obj self # args) kwargs (pd_cache st, st) of
        (r, (c, st1)) \<Rightarrow> (r, st1\<lparr>pd_cache := c\<rparr>))"

text \<open>A program start: the processors are there, every dictionary is empty.\<close>

definition fresh :: "(nat \<Rightarrow> 't frame) \<Rightarrow> 't state" where
  "fresh objs =
     \<lparr>objects = objs, ma_cache = Map.empty, diff_cache = Map.empty, ac_cache = Map.empty,
      fe_cache = Map.empty, pd_cache = Map.empty\<rparr>"

section \<open>Invariants and sample inputs\<close>

text \<open>
  A dictionary is consistent with its function when every stored value is what the
  function returns for the stored arguments. The state is consistent when the five
  dictionaries are; a program start is, and every method keeps it so.
\<close>

definition cache_ok ::
  "(pyval list \<Rightarrow> (string \<times> pyval) list \<Rightarrow> 'w \<Rightarrow> (py_error + 'v) \<times> 'w) \<Rightarrow> 'w \<Rightarrow>
   (pyval, 'v) cache \<Rightarrow> bool" where
  "cache_ok func w cache = (\<forall>k v. cache k = Some v \<longrightarrow> fst (func (fst k) (snd k) w) = Inr v)"

definition consistent :: "numerics \<Rightarrow> 't state \<Rightarrow> bool" where
  "consistent np st =
     (cache_ok (moving_average_func np (objects st)) () (ma_cache st) \<and>
      cache_ok (differential_func np (objects st)) () (diff_cache st) \<and>
      cache_ok (autocorrelation_func np (objects st)) () (ac_cache st) \<and>
      cache_ok (find_extremes_func (objects st)) () (fe_cache st) \<and>
      cache_ok (process_data_func np) (fresh (objects st)) (pd_cache st))"

text \<open>
  Three operations to run the cache on: one that always returns, one that fails once,
  and one that always fails.
\<close>

definition sum_op :: "int list \<Rightarrow> (string \<times> int) list \<Rightarrow> unit \<Rightarrow> (string + int) \<times> unit" where
  "sum_op args kwargs w = (Inr (sum_list args + sum_list (map snd kwargs)), w)"

definition flaky_op :: "int list \<Rightarrow> (string \<times> int) list \<Rightarrow> bool \<Rightarrow> (string + int) \<times> bool" where
  "flaky_op args kwargs ready =
     (if ready then (Inr (sum_list args), ready) else (Inl ''not ready'', True))"

definition failing_op :: "int list \<Rightarrow> (string \<times> int) list \<Rightarrow> unit \<Rightarrow> (string + int) \<times> unit" where
  "failing_op args kwargs w = (Inl ''invalid argument'', w)"

text \<open>
  A local maximum in the words of the specification: a position that is neither the
  first nor the last and whose value is strictly greater than both neighbours; a local
  minimum likewise with strictly less. \<open>exact\<close> is the value of a cell as a number, and
  a comparison with NaN is false. \<open>float_maximum\<close> and \<open>float_minimum\<close> make the same
  comparisons on the values converted to float64; a cell is \<open>representable\<close> when the
  conversion does not change its value.
\<close>

fun exact :: "cell \<Rightarrow> f64" where
  "exact (I x) = Fin (real_of_int x)"
| "exact (F v) = v"

definition representable :: "cell \<Rightarrow> bool" where
  "representable c = (as_f64 c = exact c)"

definition local_maximum :: "cell list \<Rightarrow> nat \<Rightarrow> bool" where
  "local_maximum v i =
     (1 \<le> i \<and> i + 2 \<le> length v \<and>
      flt (exact (v ! (i - 1))) (exact (v ! i)) \<and> flt (exact (v ! (i + 1))) (exact (v ! i)))"

definition local_minimum :: "cell list \<Rightarrow> nat \<Rightarrow> bool" where
  "local_minimum v i =
     (1 \<le> i \<and> i + 2 \<le> length v \<and>
      flt (exact (v ! i)) (exact (v ! (i - 1))) \<and> flt (exact (v ! i)) (exact (v ! (i + 1))))"

definition float_maximum :: "cell list \<Rightarrow> nat \<Rightarrow> bool" where
  "float_maximum v i =
     (1 \<le> i \<and> i + 2 \<le> length v \<and>
      flt (as_f64 (v ! (i - 1))) (as_f64 (v ! i)) \<and> flt (as_f64 (v ! (i + 1))) (as_f64 (v ! i)))"

definition float_minimum :: "cell list \<Rightarrow> nat \<Rightarrow> bool" where
  "float_minimum v i =
     (1 \<le> i \<and> i + 2 \<le> length v \<and>
      flt (as_f64 (v ! i)) (as_f64 (v ! (i - 1))) \<and> flt (as_f64 (v ! i)) (as_f64 (v ! (i + 1))))"

text \<open>
  The column that the alignment of a sparse series writes: the float64 value of the
  rows that were selected, NaN at the others.
\<close>

definition aligned :: "cell list \<Rightarrow> (nat \<Rightarrow> bool) \<Rightarrow> cell list" where
  "aligned v P = map (\<lambda>i. if P i then F (as_f64 (v ! i)) else F NaN) [0..<length v]"

text \<open>
  Sample tables, days numbered: the ten days of the repository's test; three days; a
  single row; no row; three days of integers around \<open>2^53\<close>; and five rows on three
  dates, two of them repeated.
\<close>

definition table10 :: "nat frame" where
  "table10 = \<lparr>index = [0, 1, 2, 3, 4, 5, 6, 7, 8, 9],
     columns = [(''temperature'', [I 0, I 1, I 2, I 1, I 3, I 4, I 2, I 5, I 6, I 7])]\<rparr>"

definition table3 :: "nat frame" where
  "table3 = \<lparr>index = [0, 1, 2], columns = [(''temperature'', [I 0, I 1, I 3])]\<rparr>"



definition table_big :: "nat frame" where
  "table_big = \<lparr>index = [0, 1, 2],
     columns = [(''temperature'', [I 9007199254740992, I 9007199254740993, I 9007199254740992])]\<rparr>"

definition table_dup :: "nat frame" where
  "table_dup = \<lparr>index = [0, 0, 1, 2, 2],
     columns = [(''temperature'', [I 1, I 2, I 1, I 3, I 1])]\<rparr>"

text \<open>
  A DataFrame as pandas keeps it: every column has one value per row, and the number of
  rows fits numpy's 64-bit index type.
\<close>

definition dataframe :: "'t frame \<Rightarrow> bool" where
  "dataframe df =
     (list_all (\<lambda>c. length (snd c) = length (index df)) (columns df) \<and>
      int (length (index df)) < 2 ^ 63)"

text \<open>
  The table \<^verbatim>\<open>process_data\<close> builds, computed from the method bodies without the
  dictionaries: what the method returns on a consistent state.
\<close>

fun autocorr_all :: "numerics \<Rightarrow> 't series \<Rightarrow> nat list \<Rightarrow> py_error + f64 list" where
  "autocorr_all np t [] = Inr []"
| "autocorr_all np t (lag # lags) =
     (case autocorr np (int lag) t of
        Inl e \<Rightarrow> Inl e
      | Inr v \<Rightarrow>
          (case autocorr_all np t lags of
             Inl e \<Rightarrow> Inl e
           | Inr vs \<Rightarrow> Inr (v # vs)))"

definition process_data_pure :: "numerics \<Rightarrow> 't frame \<Rightarrow> py_error + 't frame" where
  "process_data_pure np df =
     (let result = \<lparr>index = index df, columns = []\<rparr>
      in case getitem df ''temperature'' of
           Inl e \<Rightarrow> Inl e
         | Inr t \<Rightarrow>
        (case setitem_series result ''temperature'' t of
           Inl e \<Rightarrow> Inl e
         | Inr result1 \<Rightarrow>
        (case moving_average_body np df 7 of
           Inl e \<Rightarrow> Inl e
         | Inr ma \<Rightarrow>
        (case setitem_series result1 ''moving_average'' ma of
           Inl e \<Rightarrow> Inl e
         | Inr result2 \<Rightarrow>
        (case differential_body np df of
           Inl e \<Rightarrow> Inl e
         | Inr d \<Rightarrow>
        (case setitem_series result2 ''differential'' d of
           Inl e \<Rightarrow> Inl e
         | Inr result3 \<Rightarrow>
        (case autocorr_all np t [0..<length (index df)] of
           Inl e \<Rightarrow> Inl e
         | Inr acs \<Rightarrow>
        (case setitem_list result3 ''autocorrelation'' (map F acs) of
           Inl e \<Rightarrow> Inl e
         | Inr result4 \<Rightarrow>
        (case find_extremes_body df of
           Inl e \<Rightarrow> Inl e
         | Inr (maxima, minima) \<Rightarrow>
        (case setitem_series result4 ''maxima'' maxima of
           Inl e \<Rightarrow> Inl e
         | Inr result5 \<Rightarrow> setitem_series result5 ''minima'' minima))))))))))"

text \<open>
  Sequencing, for the proofs about \<^verbatim>\<open>process_data\<close>: a statement that may raise, run on
  the state, followed by the rest of the method; and the same without a state.
  \<open>computes np objs m r\<close> says that on every consistent state over the objects \<open>objs\<close>
  the step \<open>m\<close> returns \<open>r\<close> and leaves such a state.
\<close>

definition then_run ::
  "('s \<Rightarrow> ('e + 'a) \<times> 's) \<Rightarrow> ('a \<Rightarrow> 's \<Rightarrow> ('e + 'b) \<times> 's) \<Rightarrow> 's \<Rightarrow> ('e + 'b) \<times> 's" where
  "then_run m f st = (case m st of (Inl e, st1) \<Rightarrow> (Inl e, st1) | (Inr x, st1) \<Rightarrow> f x st1)"

definition pure_step :: "'e + 'a \<Rightarrow> 's \<Rightarrow> ('e + 'a) \<times> 's" where
  "pure_step r st = (r, st)"

definition then_sum :: "'e + 'a \<Rightarrow> ('a \<Rightarrow> 'e + 'b) \<Rightarrow> 'e + 'b" where
  "then_sum r g = (case r of Inl e \<Rightarrow> Inl e | Inr x \<Rightarrow> g x)"

definition computes ::
  "numerics \<Rightarrow> (nat \<Rightarrow> 't frame) \<Rightarrow> ('t state \<Rightarrow> (py_error + 'a) \<times> 't state) \<Rightarrow> py_error + 'a \<Rightarrow> bool" where
  "computes np objs m r =
     (\<forall>s. consistent np s \<and> objects s = objs \<longrightarrow>
        fst (m s) = r \<and> consistent np (snd (m s)) \<and> objects (snd (m s)) = objs)"

text \<open>What a call of \<^verbatim>\<open>process_data\<close> with the given arguments returns on a consistent state.\<close>

definition process_data_result ::
  "numerics \<Rightarrow> (nat \<Rightarrow> 't frame) \<Rightarrow> pyval list \<Rightarrow> (string \<times> pyval) list \<Rightarrow> py_error + 't frame" where
  "process_data_result np objs args kwargs =
     (case bind0 args kwargs of Inl e \<Rightarrow> Inl e | Inr self \<Rightarrow> process_data_pure np (objs self))"

text \<open>
  The five decorated methods as operations a program may call, on any processor, in
  any order: \<open>invoke\<close> is the state after one call, \<open>run\<close> the state after a sequence
  of calls. \<open>stores_le st st'\<close> says that every entry of the five dictionaries of \<open>st\<close>
  is in \<open>st'\<close> with the same value.
\<close>

datatype operation = MovingAverage | Differential | Autocorrelation | FindExtremes | ProcessData

type_synonym method_call = "operation \<times> nat \<times> pyval list \<times> (string \<times> pyval) list"

definition invoke ::
  "numerics \<Rightarrow> operation \<Rightarrow> nat \<Rightarrow> pyval list \<Rightarrow> (string \<times> pyval) list \<Rightarrow> 't state \<Rightarrow> 't state" where
  "invoke np op self args kwargs st =
     (case op of
        MovingAverage \<Rightarrow> snd (moving_average np self args kwargs st)
      | Differential \<Rightarrow> snd (differential np self args kwargs st)
      | Autocorrelation \<Rightarrow> snd (autocorrelation np self args kwargs st)
      | FindExtremes \<Rightarrow> snd (find_extremes self args kwargs st)
      | ProcessData \<Rightarrow> snd (process_data np self args kwargs st))"

fun run :: "numerics \<Rightarrow> method_call list \<Rightarrow> 't state \<Rightarrow> 't state" where
  "run np [] st = st"
| "run np ((op, self, args, kwargs) # rest) st = run np rest (invoke np op self args kwargs st)"

definition stores_le :: "'t state \<Rightarrow> 't state \<Rightarrow> bool" where
  "stores_le st st' =
     (ma_cache st \<subseteq>\<^sub>m ma_cache st' \<and> diff_cache st \<subseteq>\<^sub>m diff_cache st' \<and>
      ac_cache st \<subseteq>\<^sub>m ac_cache st' \<and> fe_cache st \<subseteq>\<^sub>m fe_cache st' \<and>
      pd_cache st \<subseteq>\<^sub>m pd_cache st')"

text \<open>
  The processor a call is made on, and what the five dictionaries hold under a key.
\<close>

definition receiver :: "method_call \<Rightarrow> nat" where
  "receiver c = fst (snd c)"

definition lookup ::
  "'t state \<Rightarrow> pyval call_key \<Rightarrow>
   't series option \<times> 't series option \<times> f64 option \<times> ('t series \<times> 't series) option \<times> 't frame option" where
  "lookup st k = (ma_cache st k, diff_cache st k, ac_cache st k, fe_cache st k, pd_cache st k)"

text \<open>
  The rows that \<^verbatim>\<open>autocorr(k)\<close> correlates: row \<open>i\<close> of the series beside row \<open>i - k\<close>,
  for \<open>i\<close> from \<open>k\<close> on, without the rows where one of the two values is NaN.
\<close>

definition overlap :: "nat \<Rightarrow> f64 list \<Rightarrow> (f64 \<times> f64) list" where
  "overlap k xs =
     filter (\<lambda>p. notna (fst p) \<and> notna (snd p)) (zip (drop k xs) (take (length xs - k) xs))"

text \<open>
  The lag autocorrelation in the words of the specification, on exact numbers: the
  products of the deviations over the overlapping rows, with the mean and the variance
  of the full series. (Another normalisation of the two sums multiplies this by a
  positive factor.)
\<close>

definition spec_mean :: "real list \<Rightarrow> real" where
  "spec_mean xs = sum_list xs / real (length xs)"

definition spec_autocorrelation :: "real list \<Rightarrow> nat \<Rightarrow> real" where
  "spec_autocorrelation xs k =
     (let m = spec_mean xs
      in (\<Sum>i\<leftarrow>[k..<length xs]. (xs ! i - m) * (xs ! (i - k) - m)) / (\<Sum>x\<leftarrow>xs. (x - m) ^ 2))"

definition table_low :: "nat frame" where
  "table_low = \<lparr>index = [0, 1, 2, 3, 4], columns = [(''temperature'', [I 0, I 1, I 0, I 1, I 3])]\<rparr>"

definition table_high :: "nat frame" where
  "table_high = \<lparr>index = [0, 1, 2, 3, 4], columns = [(''temperature'', [I 0, I 1, I 5, I 1, I 3])]\<rparr>"

section \<open>Properties of the cache\<close>

lemma wrapper_hit:
  "cache (make_key args kwargs) = Some v \<Longrightarrow>
   wrapper func args kwargs (cache, w) = (Inr v, (cache, w))"
  by (simp add: wrapper_def)

lemma wrapper_miss_ok:
  "cache (make_key args kwargs) = None \<Longrightarrow> func args kwargs w = (Inr v, w') \<Longrightarrow>
   wrapper func args kwargs (cache, w) = (Inr v, (cache(make_key args kwargs \<mapsto> v), w'))"
  by (simp add: wrapper_def)

lemma wrapper_miss_raise:
  "cache (make_key args kwargs) = None \<Longrightarrow> func args kwargs w = (Inl e, w') \<Longrightarrow>
   wrapper func args kwargs (cache, w) = (Inl e, (cache, w'))"
  by (simp add: wrapper_def)

lemma wrapper_returns_stored:
  assumes "wrapper func args kwargs (cache, w) = (Inr v, (cache', w'))"
  shows "cache' (make_key args kwargs) = Some v"
  using assms
  by (auto simp: wrapper_def Let_def split: option.splits sum.splits prod.splits)

lemma wrapper_store_mono:
  assumes "wrapper func args kwargs (cache, w) = (r, (cache', w'))"
  shows "cache \<subseteq>\<^sub>m cache'"
  using assms
  by (auto simp: wrapper_def Let_def map_le_def split: option.splits sum.splits prod.splits)

lemma wrapper_store_other:
  assumes "wrapper func args kwargs (cache, w) = (r, (cache', w'))"
    and "k \<noteq> make_key args kwargs"
  shows "cache' k = cache k"
  using assms
  by (auto simp: wrapper_def Let_def split: option.splits sum.splits prod.splits)

text \<open>
  C5, as stated, fails for an operation that raises: nothing is stored, so two
  invocations with identical arguments execute the operation twice.
\<close>

theorem raising_operation_executes_twice:
  "wrapper (counted failing_op) [- 1] [] (Map.empty, ((), 0)) =
     (Inl ''invalid argument'', (Map.empty, ((), 1))) \<and>
   wrapper (counted failing_op) [- 1] [] (Map.empty, ((), 1)) =
     (Inl ''invalid argument'', (Map.empty, ((), 2)))"
  by (simp add: wrapper_def counted_def failing_op_def)

text \<open>
  C5, amended. Two invocations with identical arguments on the same cache, the first of
  which returns a value: the second returns the same value and leaves the cache, the
  world and the call counter as they are, so it does not execute the operation; the
  first executes it once when the arguments were not seen before (and not at all when
  they were). From a cache that has not seen the arguments the operation runs exactly
  once.
\<close>

theorem wrapper_twice_executes_once:
  assumes first: "wrapper (counted func) args kwargs (cache, (w, n)) = (Inr v, s1)"
  shows "wrapper (counted func) args kwargs s1 = (Inr v, s1) \<and>
         (cache (make_key args kwargs) = None \<longrightarrow> calls s1 = Suc n) \<and>
         (cache (make_key args kwargs) \<noteq> None \<longrightarrow> calls s1 = n)"
proof -
  obtain c1 w1 n1 where s1: "s1 = (c1, (w1, n1))"
    by (cases s1) auto
  from first have stored: "c1 (make_key args kwargs) = Some v"
    unfolding s1 by (rule wrapper_returns_stored)
  have again: "wrapper (counted func) args kwargs s1 = (Inr v, s1)"
    unfolding s1 using stored by (rule wrapper_hit)
  have fresh: "calls s1 = Suc n" if "cache (make_key args kwargs) = None"
    using first that
    by (auto simp: wrapper_def counted_def calls_def Let_def split: sum.splits prod.splits)
  have seen: "calls s1 = n" if "cache (make_key args kwargs) \<noteq> None"
    using first that
    by (auto simp: wrapper_def calls_def Let_def)
  from again fresh seen show ?thesis by blast
qed

theorem wrapper_twice_executes_once_witness:
  "wrapper (counted sum_op) [1, 2] [] (Map.empty, ((), 0)) =
     (Inr 3, ([make_key [1, 2] [] \<mapsto> 3], ((), 1))) \<and>
   wrapper (counted sum_op) [1, 2] [] ([make_key [1, 2] [] \<mapsto> 3], ((), 1)) =
     (Inr 3, ([make_key [1, 2] [] \<mapsto> 3], ((), 1))) \<and>
   calls ([make_key [1, 2 :: int] [] \<mapsto> 3 :: int], ((), 1 :: nat)) = 1"
proof -
  have first: "wrapper (counted sum_op) [1, 2] [] (Map.empty, ((), 0)) =
     (Inr 3, ([make_key [1, 2] [] \<mapsto> 3], ((), 1)))"
    by (simp add: wrapper_def counted_def sum_op_def)
  from wrapper_twice_executes_once [OF first] first show ?thesis
    by simp
qed

text \<open>
  C6. When the arguments are not in the cache and the operation raises, the wrapper
  returns the exception, the cache is the one it was (no entry for the key), and the
  operation has run once; the next call with the same arguments runs the operation
  again (the counter goes up once more) and returns what that run returns.
\<close>

theorem wrapper_failure_not_stored:
  assumes absent: "cache (make_key args kwargs) = None"
    and raises: "func args kwargs w = (Inl e, w')"
  shows "wrapper (counted func) args kwargs (cache, (w, n)) = (Inl e, (cache, (w', Suc n))) \<and>
         fst (wrapper (counted func) args kwargs (cache, (w', Suc n))) = fst (func args kwargs w') \<and>
         calls (snd (wrapper (counted func) args kwargs (cache, (w', Suc n)))) = Suc (Suc n)"
proof -
  have c1: "counted func args kwargs (w, n) = (Inl e, (w', Suc n))"
    using raises by (simp add: counted_def)
  have call1: "wrapper (counted func) args kwargs (cache, (w, n)) = (Inl e, (cache, (w', Suc n)))"
    using absent c1 by (rule wrapper_miss_raise)
  obtain r w'' where run2: "func args kwargs w' = (r, w'')"
    by (cases "func args kwargs w'") auto
  then have c2: "counted func args kwargs (w', Suc n) = (r, (w'', Suc (Suc n)))"
    by (simp add: counted_def)
  have call2: "fst (wrapper (counted func) args kwargs (cache, (w', Suc n))) = r \<and>
        calls (snd (wrapper (counted func) args kwargs (cache, (w', Suc n)))) = Suc (Suc n)"
    using absent c2 by (cases r) (simp_all add: wrapper_def calls_def)
  from call1 call2 run2 show ?thesis by simp
qed

theorem wrapper_failure_not_stored_witness:
  "wrapper (counted flaky_op) [4] [] (Map.empty, (False, 0)) =
     (Inl ''not ready'', (Map.empty, (True, 1))) \<and>
   fst (wrapper (counted flaky_op) [4] [] (Map.empty, (True, 1))) = Inr 4 \<and>
   calls (snd (wrapper (counted flaky_op) [4] [] (Map.empty, (True, 1)))) = 2"
  using wrapper_failure_not_stored [where func = flaky_op and args = "[4]" and kwargs = "[]"
      and cache = Map.empty and w = False and w' = True and e = "''not ready''" and n = 0]
  by (simp add: flaky_op_def)

text \<open>
  C7, as stated, fails: the key holds the keyword arguments in call-site order. The two
  calls below pass the same keyword arguments (equal as name-to-value mappings) in
  different orders; their keys differ, and the second call, on the cache the first
  call filled, executes the operation again.
\<close>

theorem kwargs_order_separate_entries:
  "map_of [(''a'', 1 :: int), (''b'', 2)] = map_of [(''b'', 2), (''a'', 1)] \<and>
   make_key [] [(''a'', 1 :: int), (''b'', 2)] \<noteq> make_key [] [(''b'', 2), (''a'', 1)] \<and>
   wrapper (counted sum_op) [] [(''a'', 1), (''b'', 2)] (Map.empty, ((), 0)) =
     (Inr 3, ([make_key [] [(''a'', 1), (''b'', 2)] \<mapsto> 3], ((), 1))) \<and>
   calls (snd (wrapper (counted sum_op) [] [(''b'', 2), (''a'', 1)]
     ([make_key [] [(''a'', 1), (''b'', 2)] \<mapsto> 3], ((), 1)))) = 2"
  by (auto simp: wrapper_def counted_def sum_op_def make_key_def calls_def fun_eq_iff)

text \<open>
  C7, amended. After a call that returned a value, a call whose arguments the cache had
  not seen before finds an entry exactly when its positional arguments are the first
  call's, in order, and its keyword arguments are the first call's (name, value)
  pairs in the same order.
\<close>

theorem cache_hit_iff_same_arguments:
  assumes first: "wrapper func args1 kwargs1 (cache, w) = (Inr v, s1)"
    and unseen: "cache (make_key args2 kwargs2) = None"
  shows "(store s1 (make_key args2 kwargs2) \<noteq> None) = (args1 = args2 \<and> kwargs1 = kwargs2)"
proof -
  obtain c1 w1 where s1: "s1 = (c1, w1)"
    by (cases s1) auto
  show ?thesis
  proof (cases "make_key args2 kwargs2 = make_key args1 kwargs1")
    case True
    moreover from first have "c1 (make_key args1 kwargs1) = Some v"
      unfolding s1 by (rule wrapper_returns_stored)
    ultimately show ?thesis
      by (auto simp: s1 store_def make_key_def)
  next
    case False
    with first have "c1 (make_key args2 kwargs2) = cache (make_key args2 kwargs2)"
      unfolding s1 by (rule wrapper_store_other)
    with unseen False show ?thesis
      by (auto simp: s1 store_def make_key_def)
  qed
qed

theorem cache_hit_iff_same_arguments_witness:
  "wrapper sum_op [1] [(''a'', 1), (''b'', 2)] (Map.empty, ()) =
     (Inr 4, ([make_key [1] [(''a'', 1), (''b'', 2)] \<mapsto> 4], ())) \<and>
   store ([make_key [1] [(''a'', 1 :: int), (''b'', 2)] \<mapsto> 4 :: int], ())
     (make_key [1] [(''b'', 2), (''a'', 1)]) = None"
proof -
  have first: "wrapper sum_op [1] [(''a'', 1), (''b'', 2)] (Map.empty, ()) =
     (Inr 4, ([make_key [1] [(''a'', 1), (''b'', 2)] \<mapsto> 4], ()))"
    by (simp add: wrapper_def sum_op_def)
  from cache_hit_iff_same_arguments [OF first, of "[1]" "[(''b'', 2), (''a'', 1)]"] first
  show ?thesis
    by simp
qed

section \<open>Consistency of the dictionaries\<close>

lemma cache_ok_empty: "cache_ok func w Map.empty"
  by (simp add: cache_ok_def)

lemma consistent_fresh: "consistent np (fresh objs)"
  by (simp add: consistent_def fresh_def cache_ok_empty)

lemma cache_ok_result:
  assumes "cache_ok func w cache"
  shows "fst (wrapper func args kwargs (cache, w)) = fst (func args kwargs w)"
proof (cases "cache (make_key args kwargs)")
  case None
  then show ?thesis
    by (simp add: wrapper_def split: sum.splits prod.splits)
next
  case (Some v)
  with assms have "fst (func args kwargs w) = Inr v"
    by (simp add: cache_ok_def make_key_def)
  with Some show ?thesis
    by (simp add: wrapper_def)
qed

lemma cache_ok_update:
  assumes "cache_ok func w cache" and "fst (func args kwargs w) = Inr v"
  shows "cache_ok func w (cache(make_key args kwargs \<mapsto> v))"
  using assms by (simp add: cache_ok_def make_key_def)

lemma cache_ok_step:
  assumes "cache_ok func () cache"
  shows "cache_ok func () (fst (snd (wrapper func args kwargs (cache, ()))))"
proof (cases "cache (make_key args kwargs)")
  case (Some v)
  with assms show ?thesis
    by (simp add: wrapper_def)
next
  case None
  show ?thesis
  proof (cases "fst (func args kwargs ())")
    case (Inl e)
    with None assms show ?thesis
      by (auto simp: wrapper_def split: prod.splits sum.splits)
  next
    case (Inr v)
    with assms have "cache_ok func () (cache(make_key args kwargs \<mapsto> v))"
      by (rule cache_ok_update)
    with None Inr show ?thesis
      by (auto simp: wrapper_def split: prod.splits sum.splits)
  qed
qed

section \<open>Properties of the pandas operations\<close>

lemma scale_of_small: "a < 2 ^ 53 \<Longrightarrow> scale_of a = 0"
  by (subst scale_of.simps) simp

lemma s53: "scale_of 9007199254740992 = Suc 0"
  by (subst scale_of.simps, subst scale_of.simps) simp

lemma s53': "scale_of 9007199254740993 = Suc 0"
  by (subst scale_of.simps, subst scale_of.simps) simp

lemma round_nat_small: "a < 2 ^ 53 \<Longrightarrow> round_nat a = a"
  by (simp add: round_nat_def scale_of_small)

lemma round_nat_53: "round_nat 9007199254740992 = 9007199254740992"
  by (simp add: round_nat_def s53)

lemma round_nat_53': "round_nat 9007199254740993 = 9007199254740992"
  by (simp add: round_nat_def s53')

lemma round_nat_exact:
  assumes "a \<le> 2 ^ 53"
  shows "round_nat a = a"
proof (cases "a < 2 ^ 53")
  case True
  then show ?thesis by (rule round_nat_small)
next
  case False
  with assms have "a = 9007199254740992"
    by simp
  then show ?thesis
    by (simp only: round_nat_53)
qed

lemma int_to_f64_exact:
  assumes "\<bar>x\<bar> \<le> 2 ^ 53"
  shows "int_to_f64 x = real_of_int x"
proof (cases "x < 0")
  case True
  with assms have "nat (- x) \<le> 2 ^ 53"
    by (simp add: nat_le_iff)
  then have "round_nat (nat (- x)) = nat (- x)"
    by (rule round_nat_exact)
  with True show ?thesis
    by (simp add: int_to_f64_def)
next
  case False
  with assms have "nat x \<le> 2 ^ 53"
    by (simp add: nat_le_iff)
  then have "round_nat (nat x) = nat x"
    by (rule round_nat_exact)
  with False show ?thesis
    by (simp add: int_to_f64_def)
qed

lemma int_to_f64_above: "int_to_f64 9007199254740993 = 9007199254740992"
  by (simp add: int_to_f64_def round_nat_53')

lemma int_to_f64_two53: "int_to_f64 9007199254740992 = 9007199254740992"
  by (simp add: int_to_f64_def round_nat_53)

lemma representable_float: "representable (F v)"
  by (simp add: representable_def)

lemma representable_int: "\<bar>x\<bar> \<le> 2 ^ 53 \<Longrightarrow> representable (I x)"
  by (simp add: representable_def int_to_f64_exact)

lemma length_shift_vals [simp]: "length (shift_vals k vs) = length vs"
  by (auto simp: shift_vals_def Let_def)

lemma length_vals [simp]: "length (vals s) = length s"
  by (simp add: vals_def)

lemma length_labels [simp]: "length (labels s) = length s"
  by (simp add: labels_def)

lemma vals_zip [simp]: "length ls = length vs \<Longrightarrow> vals (zip ls vs) = vs"
  by (simp add: vals_def)

lemma labels_zip [simp]: "length ls = length vs \<Longrightarrow> labels (zip ls vs) = ls"
  by (simp add: labels_def)

lemma shift_in_range:
  assumes "index_range k"
  shows "shift k s = Inr (zip (labels s) (shift_vals k (vals s)))"
  using assms by (simp add: shift_def)

lemma shift_out_of_range:
  assumes "\<not> index_range k" and "s \<noteq> []"
  shows "shift k s = Inl OverflowError"
proof -
  from assms(1) have "k \<noteq> 0"
    by (auto simp: index_range_def)
  with assms show ?thesis
    by (simp add: shift_def)
qed

lemma autocorr_in_range:
  assumes "index_range lag"
  shows "autocorr np lag s = Inr (autocorr_value np lag s)"
  using assms by (simp add: autocorr_def autocorr_value_def shift_in_range)

lemma autocorr_out_of_range:
  assumes "\<not> index_range lag" and "s \<noteq> []"
  shows "autocorr np lag s = Inl OverflowError"
  using assms by (simp add: autocorr_def shift_out_of_range)

lemma autocorr_empty: "autocorr np lag [] = Inr NaN"
  by (simp add: autocorr_def shift_def autocorr_value_def corr_def valid_pairs_def
      labels_def vals_def shift_vals_def)

lemma index_range_nat: "int n < 2 ^ 63 \<Longrightarrow> index_range (int n)"
  by (simp add: index_range_def)

lemma autocorr_all_in_range:
  assumes "\<forall>lag\<in>set lags. int lag < 2 ^ 63"
  shows "autocorr_all np t lags = Inr (map (\<lambda>lag. autocorr_value np (int lag) t) lags)"
  using assms by (induction lags) (simp_all add: autocorr_in_range index_range_nat)

lemma shift_vals_down:
  assumes "i < length vs"
  shows "shift_vals 1 vs ! i = (if i = 0 then F NaN else F (as_f64 (vs ! (i - 1))))"
  using assms by (auto simp: shift_vals_def Let_def nth_append min_def)

lemma shift_vals_up:
  assumes "i < length vs"
  shows "shift_vals (- 1) vs ! i = (if i + 1 < length vs then F (as_f64 (vs ! (i + 1))) else F NaN)"
  using assms by (auto simp: shift_vals_def Let_def nth_append min_def)

lemma lt_float_left: "lt (F x) c = flt x (as_f64 c)"
  by (cases c) simp_all

lemma lt_float_right: "lt c (F x) = flt (as_f64 c) x"
  by (cases c) simp_all

lemma flt_nan_left [simp]: "flt NaN x = False"
  by simp

lemma flt_nan_right [simp]: "flt x NaN = False"
  by (cases x) simp_all

lemma mask_select_nth:
  assumes "length m = length s"
  shows "mask_select s m = map ((!) s) (filter ((!) m) [0..<length s])"
  using assms
proof (induction s arbitrary: m rule: rev_induct)
  case Nil
  then show ?case by (simp add: mask_select_def)
next
  case (snoc x s)
  then obtain m' b where m: "m = m' @ [b]" and len: "length m' = length s"
    by (cases m rule: rev_cases) auto
  have sel: "mask_select (s @ [x]) m = mask_select s m' @ (if b then [x] else [])"
    using len by (simp add: mask_select_def m)
  have f1: "filter ((!) m) [0..<length s] = filter ((!) m') [0..<length s]"
    using len by (intro filter_cong) (simp_all add: m nth_append)
  have f2: "map ((!) (s @ [x])) (filter ((!) m') [0..<length s]) = map ((!) s) (filter ((!) m') [0..<length s])"
    by (intro map_cong) (simp_all add: nth_append)
  have last: "m ! length s = b" "(s @ [x]) ! length s = x"
    using len by (simp_all add: m nth_append)
  have "map ((!) (s @ [x])) (filter ((!) m) [0..<length (s @ [x])]) =
      map ((!) (s @ [x])) (filter ((!) m) [0..<length s]) @ (if b then [x] else [])"
    using last by simp
  also have "\<dots> = map ((!) s) (filter ((!) m') [0..<length s]) @ (if b then [x] else [])"
    by (simp only: f1 f2)
  also have "\<dots> = mask_select (s @ [x]) m"
    using snoc.IH [OF len] sel by simp
  finally show ?case by simp
qed

lemma find_extremes_body_eq:
  assumes "getitem df ''temperature'' = Inr t"
  shows "find_extremes_body df =
    Inr (map ((!) t) (filter (float_maximum (vals t)) [0..<length t]),
         map ((!) t) (filter (float_minimum (vals t)) [0..<length t]))"
proof -
  let ?v = "vals t"
  let ?down = "zip (labels t) (shift_vals 1 ?v)"
  let ?up = "zip (labels t) (shift_vals (- 1) ?v)"
  let ?mx = "mask_and (series_lt ?down t) (series_lt ?up t)"
  let ?mn = "mask_and (series_gt ?down t) (series_gt ?up t)"
  have down: "shift 1 t = Inr ?down" and up: "shift (- 1) t = Inr ?up"
    by (simp_all add: shift_in_range index_range_def)
  have lmx: "length ?mx = length t" and lmn: "length ?mn = length t"
    by (simp_all add: mask_and_def series_lt_def series_gt_def)
  have mx: "?mx ! i = float_maximum ?v i" if "i < length t" for i
    using that
    by (auto simp: mask_and_def series_lt_def float_maximum_def
        shift_vals_down shift_vals_up lt_float_left)
  have mn: "?mn ! i = float_minimum ?v i" if "i < length t" for i
    using that
    by (auto simp: mask_and_def series_gt_def gt_def float_minimum_def
        shift_vals_down shift_vals_up lt_float_right)
  have "filter ((!) ?mx) [0..<length t] = filter (float_maximum ?v) [0..<length t]"
    by (rule filter_cong) (simp_all add: mx)
  moreover have "filter ((!) ?mn) [0..<length t] = filter (float_minimum ?v) [0..<length t]"
    by (rule filter_cong) (simp_all add: mn)
  ultimately show ?thesis
    using assms by (simp add: find_extremes_body_def down up Let_def mask_select_nth lmx lmn)
qed

lemma float_maximum_exact:
  assumes "list_all representable v"
  shows "float_maximum v i = local_maximum v i"
proof (cases "1 \<le> i \<and> i + 2 \<le> length v")
  case True
  then have "i - 1 < length v" "i < length v" "i + 1 < length v"
    by arith+
  then have "v ! (i - 1) \<in> set v" "v ! i \<in> set v" "v ! (i + 1) \<in> set v"
    by (simp_all only: nth_mem)
  with assms have "as_f64 (v ! (i - 1)) = exact (v ! (i - 1))" "as_f64 (v ! i) = exact (v ! i)"
    "as_f64 (v ! (i + 1)) = exact (v ! (i + 1))"
    by (simp_all add: list_all_iff representable_def)
  then show ?thesis
    by (simp add: float_maximum_def local_maximum_def)
next
  case False
  then show ?thesis
    by (auto simp: float_maximum_def local_maximum_def)
qed

lemma float_minimum_exact:
  assumes "list_all representable v"
  shows "float_minimum v i = local_minimum v i"
proof (cases "1 \<le> i \<and> i + 2 \<le> length v")
  case True
  then have "i - 1 < length v" "i < length v" "i + 1 < length v"
    by arith+
  then have "v ! (i - 1) \<in> set v" "v ! i \<in> set v" "v ! (i + 1) \<in> set v"
    by (simp_all only: nth_mem)
  with assms have "as_f64 (v ! (i - 1)) = exact (v ! (i - 1))" "as_f64 (v ! i) = exact (v ! i)"
    "as_f64 (v ! (i + 1)) = exact (v ! (i + 1))"
    by (simp_all add: list_all_iff representable_def)
  then show ?thesis
    by (simp add: float_minimum_def local_minimum_def)
next
  case False
  then show ?thesis
    by (auto simp: float_minimum_def local_minimum_def)
qed

section \<open>The cached methods on a consistent state\<close>

lemma moving_average_run:
  assumes "consistent np st"
  shows "\<exists>st1. moving_average np self args kwargs st =
            (fst (moving_average_func np (objects st) (Obj self # args) kwargs ()), st1) \<and>
          consistent np st1 \<and> objects st1 = objects st"
proof -
  let ?w = "wrapper (moving_average_func np (objects st)) (Obj self # args) kwargs (ma_cache st, ())"
  have ok: "cache_ok (moving_average_func np (objects st)) () (ma_cache st)"
    using assms by (simp add: consistent_def)
  have run: "moving_average np self args kwargs st = (fst ?w, st\<lparr>ma_cache := fst (snd ?w)\<rparr>)"
    by (simp add: moving_average_def split: prod.splits)
  have "fst ?w = fst (moving_average_func np (objects st) (Obj self # args) kwargs ())"
    using ok by (rule cache_ok_result)
  moreover have "consistent np (st\<lparr>ma_cache := fst (snd ?w)\<rparr>)"
    using assms cache_ok_step [OF ok] by (simp add: consistent_def)
  ultimately show ?thesis
    using run by simp
qed

lemma differential_run:
  assumes "consistent np st"
  shows "\<exists>st1. differential np self args kwargs st =
            (fst (differential_func np (objects st) (Obj self # args) kwargs ()), st1) \<and>
          consistent np st1 \<and> objects st1 = objects st"
proof -
  let ?w = "wrapper (differential_func np (objects st)) (Obj self # args) kwargs (diff_cache st, ())"
  have ok: "cache_ok (differential_func np (objects st)) () (diff_cache st)"
    using assms by (simp add: consistent_def)
  have run: "differential np self args kwargs st = (fst ?w, st\<lparr>diff_cache := fst (snd ?w)\<rparr>)"
    by (simp add: differential_def split: prod.splits)
  have "fst ?w = fst (differential_func np (objects st) (Obj self # args) kwargs ())"
    using ok by (rule cache_ok_result)
  moreover have "consistent np (st\<lparr>diff_cache := fst (snd ?w)\<rparr>)"
    using assms cache_ok_step [OF ok] by (simp add: consistent_def)
  ultimately show ?thesis
    using run by simp
qed

lemma autocorrelation_run:
  assumes "consistent np st"
  shows "\<exists>st1. autocorrelation np self args kwargs st =
            (fst (autocorrelation_func np (objects st) (Obj self # args) kwargs ()), st1) \<and>
          consistent np st1 \<and> objects st1 = objects st"
proof -
  let ?w = "wrapper (autocorrelation_func np (objects st)) (Obj self # args) kwargs (ac_cache st, ())"
  have ok: "cache_ok (autocorrelation_func np (objects st)) () (ac_cache st)"
    using assms by (simp add: consistent_def)
  have run: "autocorrelation np self args kwargs st = (fst ?w, st\<lparr>ac_cache := fst (snd ?w)\<rparr>)"
    by (simp add: autocorrelation_def split: prod.splits)
  have "fst ?w = fst (autocorrelation_func np (objects st) (Obj self # args) kwargs ())"
    using ok by (rule cache_ok_result)
  moreover have "consistent np (st\<lparr>ac_cache := fst (snd ?w)\<rparr>)"
    using assms cache_ok_step [OF ok] by (simp add: consistent_def)
  ultimately show ?thesis
    using run by simp
qed

lemma find_extremes_run:
  assumes "consistent np st"
  shows "\<exists>st1. find_extremes self args kwargs st =
            (fst (find_extremes_func (objects st) (Obj self # args) kwargs ()), st1) \<and>
          consistent np st1 \<and> objects st1 = objects st"
proof -
  let ?w = "wrapper (find_extremes_func (objects st)) (Obj self # args) kwargs (fe_cache st, ())"
  have ok: "cache_ok (find_extremes_func (objects st)) () (fe_cache st)"
    using assms by (simp add: consistent_def)
  have run: "find_extremes self args kwargs st = (fst ?w, st\<lparr>fe_cache := fst (snd ?w)\<rparr>)"
    by (simp add: find_extremes_def split: prod.splits)
  have "fst ?w = fst (find_extremes_func (objects st) (Obj self # args) kwargs ())"
    using ok by (rule cache_ok_result)
  moreover have "consistent np (st\<lparr>fe_cache := fst (snd ?w)\<rparr>)"
    using assms cache_ok_step [OF ok] by (simp add: consistent_def)
  ultimately show ?thesis
    using run by simp
qed

text \<open>The calls the repository makes, bound to the parameters.\<close>

lemma moving_average_func_positional:
  "fst (moving_average_func np objs [Obj self, PyInt w] [] ()) = moving_average_body np (objs self) w"
  by (simp add: moving_average_func_def bind1_def)

lemma moving_average_func_keyword:
  "fst (moving_average_func np objs [Obj self] [(''window'', PyInt w)] ()) = moving_average_body np (objs self) w"
  by (simp add: moving_average_func_def bind1_def)

lemma differential_func_call:
  "fst (differential_func np objs [Obj self] [] ()) = differential_body np (objs self)"
  by (simp add: differential_func_def bind0_def)

lemma autocorrelation_func_positional:
  "fst (autocorrelation_func np objs [Obj self, PyInt lag] [] ()) = autocorrelation_body np (objs self) lag"
  by (simp add: autocorrelation_func_def bind1_def)

lemma find_extremes_func_call:
  "fst (find_extremes_func objs [Obj self] [] ()) = find_extremes_body (objs self)"
  by (simp add: find_extremes_func_def bind0_def)

lemma autocorrelation_list_run:
  assumes "consistent np st" and "getitem (objects st self) ''temperature'' = Inr t"
  shows "\<exists>st1. autocorrelation_list np self lags st = (autocorr_all np t lags, st1) \<and>
          consistent np st1 \<and> objects st1 = objects st"
  using assms
proof (induction lags arbitrary: st)
  case Nil
  then show ?case by simp
next
  case (Cons lag lags)
  from autocorrelation_run [OF Cons.prems(1), of self "[PyInt (int lag)]" "[]"]
  obtain st1 where 1: "autocorrelation np self [PyInt (int lag)] [] st = (autocorr np (int lag) t, st1)"
    and c1: "consistent np st1" and o1: "objects st1 = objects st"
    using Cons.prems(2) by (auto simp: autocorrelation_func_positional autocorrelation_body_def)
  from Cons.IH [OF c1] Cons.prems(2) o1
  obtain st2 where 2: "autocorrelation_list np self lags st1 = (autocorr_all np t lags, st2)"
    and c2: "consistent np st2" and o2: "objects st2 = objects st1"
    by auto
  show ?case
  proof (cases "autocorr np (int lag) t")
    case (Inl e)
    with 1 c1 o1 show ?thesis by simp
  next
    case (Inr v)
    with 1 2 c2 o1 o2 show ?thesis
      by (cases "autocorr_all np t lags") simp_all
  qed
qed

section \<open>The aggregate on a consistent state\<close>

lemma autocorrelation_list_invariant:
  assumes "P st" and "\<And>s a k. P s \<Longrightarrow> P (snd (autocorrelation np self a k s))"
  shows "P (snd (autocorrelation_list np self lags st))"
  using assms(1)
proof (induction lags arbitrary: st)
  case Nil
  then show ?case by simp
next
  case (Cons lag lags)
  let ?s1 = "snd (autocorrelation np self [PyInt (int lag)] [] st)"
  have s1: "P ?s1"
    using Cons.prems by (rule assms(2))
  then have "P (snd (autocorrelation_list np self lags ?s1))"
    by (rule Cons.IH)
  with s1 show ?case
    by (auto split: prod.splits sum.splits)
qed

lemma process_data_body_steps:
  "process_data_body np self st =
     then_run (pure_step (getitem (objects st self) ''temperature'')) (\<lambda>t.
     then_run (pure_step (setitem_series \<lparr>index = index (objects st self), columns = []\<rparr> ''temperature'' t)) (\<lambda>result1.
     then_run (moving_average np self [] [(''window'', PyInt 7)]) (\<lambda>ma.
     then_run (pure_step (setitem_series result1 ''moving_average'' ma)) (\<lambda>result2.
     then_run (differential np self [] []) (\<lambda>d.
     then_run (pure_step (setitem_series result2 ''differential'' d)) (\<lambda>result3.
     then_run (autocorrelation_generator np self) (\<lambda>acs.
     then_run (pure_step (setitem_list result3 ''autocorrelation'' (map F acs))) (\<lambda>result4.
     then_run (find_extremes self [] []) (\<lambda>extremes.
     then_run (pure_step (setitem_series result4 ''maxima'' (fst extremes))) (\<lambda>result5.
     then_run (pure_step (setitem_series result5 ''minima'' (snd extremes))) (\<lambda>result6.
     pure_step (Inr result6)))))))))))) st"
  by (simp add: process_data_body_def then_run_def pure_step_def Let_def case_prod_beta cong: sum.case_cong prod.case_cong)

lemma sum_case_id: "(case r of Inl e \<Rightarrow> Inl e | Inr x \<Rightarrow> Inr x) = r"
  by (cases r) simp_all

lemma process_data_pure_steps:
  "process_data_pure np df =
     then_sum (getitem df ''temperature'') (\<lambda>t.
     then_sum (setitem_series \<lparr>index = index df, columns = []\<rparr> ''temperature'' t) (\<lambda>result1.
     then_sum (moving_average_body np df 7) (\<lambda>ma.
     then_sum (setitem_series result1 ''moving_average'' ma) (\<lambda>result2.
     then_sum (differential_body np df) (\<lambda>d.
     then_sum (setitem_series result2 ''differential'' d) (\<lambda>result3.
     then_sum (autocorr_all np t [0..<length (index df)]) (\<lambda>acs.
     then_sum (setitem_list result3 ''autocorrelation'' (map F acs)) (\<lambda>result4.
     then_sum (find_extremes_body df) (\<lambda>extremes.
     then_sum (setitem_series result4 ''maxima'' (fst extremes)) (\<lambda>result5.
     then_sum (setitem_series result5 ''minima'' (snd extremes)) (\<lambda>result6.
     Inr result6)))))))))))"
  by (simp add: process_data_pure_def then_sum_def Let_def case_prod_beta sum_case_id
      cong: sum.case_cong prod.case_cong)

lemma then_run_invariant:
  assumes "\<And>s. P s \<Longrightarrow> P (snd (m s))" and "\<And>x s. P s \<Longrightarrow> P (snd (f x s))" and "P st"
  shows "P (snd (then_run m f st))"
proof (cases "m st")
  case (Pair r st1)
  with assms(1) [OF assms(3)] have "P st1" by simp
  with Pair assms(2) show ?thesis
    by (cases r) (simp_all add: then_run_def)
qed

lemma pure_step_invariant: "P s \<Longrightarrow> P (snd (pure_step r s))"
  by (simp add: pure_step_def)

lemma process_data_body_invariant:
  assumes "P st"
    and "\<And>s a k. P s \<Longrightarrow> P (snd (moving_average np self a k s))"
    and "\<And>s a k. P s \<Longrightarrow> P (snd (differential np self a k s))"
    and "\<And>s a k. P s \<Longrightarrow> P (snd (autocorrelation np self a k s))"
    and "\<And>s a k. P s \<Longrightarrow> P (snd (find_extremes self a k s))"
  shows "P (snd (process_data_body np self st))"
proof -
  have gen: "P (snd (autocorrelation_generator np self s))" if "P s" for s
    unfolding autocorrelation_generator_def
    using that by (rule autocorrelation_list_invariant) (rule assms(4))
  note step = then_run_invariant [where P = P] and pure = pure_step_invariant [where P = P]
  show ?thesis
    unfolding process_data_body_steps
    by (rule step pure assms gen | assumption)+
qed

lemma computesD:
  assumes "computes np objs m r" and "consistent np s" and "objects s = objs"
  shows "fst (m s) = r" and "consistent np (snd (m s))" and "objects (snd (m s)) = objs"
  using assms unfolding computes_def by blast+

lemma computes_then_run:
  assumes "computes np objs m r" and "\<And>x. r = Inr x \<Longrightarrow> computes np objs (f x) (g x)"
  shows "computes np objs (then_run m f) (then_sum r g)"
  unfolding computes_def
proof (intro allI impI, elim conjE)
  fix s :: "'a state"
  assume c: "consistent np s" and o: "objects s = objs"
  obtain r1 s1 where run: "m s = (r1, s1)"
    by (cases "m s")
  from computesD [OF assms(1) c o]
  have r1: "r1 = r" and c1: "consistent np s1" and o1: "objects s1 = objs"
    by (simp_all add: run)
  show "fst (then_run m f s) = then_sum r g \<and>
     consistent np (snd (then_run m f s)) \<and> objects (snd (then_run m f s)) = objs"
  proof (cases r)
    case (Inl e)
    with run r1 have "then_run m f s = (Inl e, s1)"
      by (simp add: then_run_def)
    with c1 o1 Inl show ?thesis
      by (simp add: then_sum_def)
  next
    case (Inr x)
    with run r1 have step: "then_run m f s = f x s1"
      by (simp add: then_run_def)
    from assms(2) [OF Inr] c1 o1
    have "fst (f x s1) = g x" "consistent np (snd (f x s1))" "objects (snd (f x s1)) = objs"
      by (rule computesD)+
    with step Inr show ?thesis
      by (simp add: then_sum_def)
  qed
qed

lemma computes_pure_step: "computes np objs (pure_step r) r"
  by (simp add: computes_def pure_step_def)

lemma computes_run:
  assumes "\<And>s. consistent np s \<Longrightarrow> \<exists>s1. m s = (r (objects s), s1) \<and> consistent np s1 \<and> objects s1 = objects s"
  shows "computes np objs m (r objs)"
  unfolding computes_def
proof (intro allI impI)
  fix s :: "'a state"
  assume s: "consistent np s \<and> objects s = objs"
  then obtain s1 where "m s = (r (objects s), s1)" and "consistent np s1" and "objects s1 = objects s"
    using assms by blast
  with s show "fst (m s) = r objs \<and> consistent np (snd (m s)) \<and> objects (snd (m s)) = objs"
    by simp
qed

lemma computes_moving_average:
  "computes np objs (moving_average np self [] [(''window'', PyInt w)]) (moving_average_body np (objs self) w)"
  by (rule computes_run [where r = "\<lambda>objs. moving_average_body np (objs self) w"])
    (use moving_average_run [where self = self and args = "[]" and kwargs = "[(''window'', PyInt w)]"]
      in \<open>simp add: moving_average_func_keyword\<close>)

lemma computes_differential:
  "computes np objs (differential np self [] []) (differential_body np (objs self))"
  by (rule computes_run [where r = "\<lambda>objs. differential_body np (objs self)"])
    (use differential_run [where self = self and args = "[]" and kwargs = "[]"]
      in \<open>simp add: differential_func_call\<close>)

lemma computes_find_extremes:
  "computes np objs (find_extremes self [] []) (find_extremes_body (objs self))"
  by (rule computes_run [where r = "\<lambda>objs. find_extremes_body (objs self)"])
    (use find_extremes_run [where self = self and args = "[]" and kwargs = "[]"]
      in \<open>simp add: find_extremes_func_call\<close>)

lemma computes_generator:
  assumes "getitem (objs self) ''temperature'' = Inr t"
  shows "computes np objs (autocorrelation_generator np self)
     (autocorr_all np t [0..<length (index (objs self))])"
  unfolding computes_def
proof (intro allI impI)
  fix s :: "'a state"
  assume s: "consistent np s \<and> objects s = objs"
  with assms have g: "getitem (objects s self) ''temperature'' = Inr t"
    by simp
  from s have c: "consistent np s" by simp
  from autocorrelation_list_run [OF c g, where lags = "[0..<length (index (objs self))]"]
  obtain s1 where "autocorrelation_list np self [0..<length (index (objs self))] s =
      (autocorr_all np t [0..<length (index (objs self))], s1)"
    and "consistent np s1" and "objects s1 = objects s"
    by blast
  with s show "fst (autocorrelation_generator np self s) =
        autocorr_all np t [0..<length (index (objs self))] \<and>
     consistent np (snd (autocorrelation_generator np self s)) \<and>
     objects (snd (autocorrelation_generator np self s)) = objs"
    by (simp add: autocorrelation_generator_def)
qed

lemma process_data_steps_compute:
  "computes np objs
     (then_run (pure_step (getitem (objs self) ''temperature'')) (\<lambda>t.
      then_run (pure_step (setitem_series \<lparr>index = index (objs self), columns = []\<rparr> ''temperature'' t)) (\<lambda>result1.
      then_run (moving_average np self [] [(''window'', PyInt 7)]) (\<lambda>ma.
      then_run (pure_step (setitem_series result1 ''moving_average'' ma)) (\<lambda>result2.
      then_run (differential np self [] []) (\<lambda>d.
      then_run (pure_step (setitem_series result2 ''differential'' d)) (\<lambda>result3.
      then_run (autocorrelation_generator np self) (\<lambda>acs.
      then_run (pure_step (setitem_list result3 ''autocorrelation'' (map F acs))) (\<lambda>result4.
      then_run (find_extremes self [] []) (\<lambda>extremes.
      then_run (pure_step (setitem_series result4 ''maxima'' (fst extremes))) (\<lambda>result5.
      then_run (pure_step (setitem_series result5 ''minima'' (snd extremes))) (\<lambda>result6.
      pure_step (Inr result6)))))))))))))
     (process_data_pure np (objs self))"
  unfolding process_data_pure_steps
  by (rule computes_then_run computes_pure_step computes_moving_average computes_differential
      computes_find_extremes computes_generator | assumption)+

lemma process_data_body_pure:
  assumes "consistent np st"
  shows "fst (process_data_body np self st) = process_data_pure np (objects st self)"
    and "consistent np (snd (process_data_body np self st))"
    and "objects (snd (process_data_body np self st)) = objects st"
  using computesD [OF process_data_steps_compute [where self = self] assms refl]
  by (simp_all add: process_data_body_steps)

lemma moving_average_pd_cache: "pd_cache (snd (moving_average np self a k s)) = pd_cache s"
  by (simp add: moving_average_def split: prod.splits)

lemma differential_pd_cache: "pd_cache (snd (differential np self a k s)) = pd_cache s"
  by (simp add: differential_def split: prod.splits)

lemma autocorrelation_pd_cache: "pd_cache (snd (autocorrelation np self a k s)) = pd_cache s"
  by (simp add: autocorrelation_def split: prod.splits)

lemma find_extremes_pd_cache: "pd_cache (snd (find_extremes self a k s)) = pd_cache s"
  by (simp add: find_extremes_def split: prod.splits)

lemma process_data_body_pd_cache: "pd_cache (snd (process_data_body np self st)) = pd_cache st"
  by (rule process_data_body_invariant [where P = "\<lambda>s. pd_cache s = pd_cache st"])
    (simp_all add: moving_average_pd_cache differential_pd_cache autocorrelation_pd_cache
      find_extremes_pd_cache)

lemma process_data_func_pure:
  assumes "consistent np st"
  shows "fst (process_data_func np args kwargs st) = process_data_result np (objects st) args kwargs"
    and "consistent np (snd (process_data_func np args kwargs st))"
    and "objects (snd (process_data_func np args kwargs st)) = objects st"
    and "pd_cache (snd (process_data_func np args kwargs st)) = pd_cache st"
  using assms process_data_body_pure [OF assms] process_data_body_pd_cache [where st = st]
  by (cases "bind0 args kwargs"; simp add: process_data_func_def process_data_result_def)+

lemma objects_fresh [simp]: "objects (fresh objs) = objs"
  by (simp add: fresh_def)

lemma process_data_func_fresh:
  "fst (process_data_func np args kwargs (fresh objs)) = process_data_result np objs args kwargs"
  using process_data_func_pure(1) [OF consistent_fresh, where args = args and kwargs = kwargs and objs1 = objs] by simp

lemma process_data_run:
  assumes "consistent np st"
  shows "fst (process_data np self args kwargs st) = process_data_result np (objects st) (Obj self # args) kwargs"
    and "consistent np (snd (process_data np self args kwargs st))"
    and "objects (snd (process_data np self args kwargs st)) = objects st"
proof -
  let ?key = "make_key (Obj self # args) kwargs"
  let ?pure = "process_data_result np (objects st) (Obj self # args) kwargs"
  have ok: "cache_ok (process_data_func np) (fresh (objects st)) (pd_cache st)"
    using assms by (simp add: consistent_def)
  obtain r st1 where run: "process_data_func np (Obj self # args) kwargs st = (r, st1)"
    by (cases "process_data_func np (Obj self # args) kwargs st")
  from process_data_func_pure [OF assms, where args = "Obj self # args" and kwargs = kwargs]
  have r: "r = ?pure" and c1: "consistent np st1" and o1: "objects st1 = objects st"
    and p1: "pd_cache st1 = pd_cache st"
    by (simp_all add: run)
  have all: "fst (process_data np self args kwargs st) = ?pure \<and>
      consistent np (snd (process_data np self args kwargs st)) \<and>
      objects (snd (process_data np self args kwargs st)) = objects st"
  proof (cases "pd_cache st ?key")
    case (Some v)
    with ok have "fst (process_data_func np (Obj self # args) kwargs (fresh (objects st))) = Inr v"
      by (simp add: cache_ok_def make_key_def)
    then have "?pure = Inr v"
      by (simp add: process_data_func_fresh)
    with Some assms show ?thesis
      by (simp add: process_data_def wrapper_def)
  next
    case None
    show ?thesis
    proof (cases ?pure)
      case (Inl e)
      have "st1\<lparr>pd_cache := pd_cache st\<rparr> = st1"
        using p1 by simp
      with None Inl run r c1 o1 show ?thesis
        by (simp add: process_data_def wrapper_def)
    next
      case (Inr v)
      have "cache_ok (process_data_func np) (fresh (objects st)) ((pd_cache st)(?key \<mapsto> v))"
        using ok Inr by (intro cache_ok_update) (simp_all add: process_data_func_fresh)
      then have "consistent np (st1\<lparr>pd_cache := (pd_cache st)(?key \<mapsto> v)\<rparr>)"
        using c1 o1 by (simp add: consistent_def)
      with None Inr run r o1 show ?thesis
        by (simp add: process_data_def wrapper_def)
    qed
  qed
  then show "fst (process_data np self args kwargs st) = ?pure"
    and "consistent np (snd (process_data np self args kwargs st))"
    and "objects (snd (process_data np self args kwargs st)) = objects st"
    by simp_all
qed

section \<open>Assignment of a sparse series to a column\<close>

lemma getitem_Inr:
  assumes "map_of (columns df) name = Some v" and "length v = length (index df)"
  shows "getitem df name = Inr (zip (index df) v)"
  using assms by (simp add: getitem_def)

lemma selected_labels_distinct:
  assumes "distinct idx" and "length (v :: cell list) = length idx"
  shows "distinct (labels (map ((!) (zip idx v)) (filter P [0..<length idx])))"
proof -
  have "labels (map ((!) (zip idx v)) (filter P [0..<length idx])) = map ((!) idx) (filter P [0..<length idx])"
    using assms(2) by (simp add: labels_def)
  moreover have "inj_on ((!) idx) (set (filter P [0..<length idx]))"
    using assms(1) by (intro inj_on_nth) auto
  ultimately show ?thesis
    by (simp add: distinct_map)
qed

lemma selected_lookup:
  assumes "distinct idx" and "length (v :: cell list) = length idx" and "j < length idx"
  shows "map_of (map ((!) (zip idx v)) (filter P [0..<length idx])) (idx ! j) =
     (if P j then Some (v ! j) else None)"
proof -
  let ?sel = "map ((!) (zip idx v)) (filter P [0..<length idx])"
  have d: "distinct (map fst ?sel)"
    using selected_labels_distinct [OF assms(1,2), of P] by (simp add: labels_def)
  show ?thesis
  proof (cases "P j")
    case True
    then have "(idx ! j, v ! j) \<in> set ?sel"
      using assms(2,3) by (auto simp: image_iff intro!: bexI [where x = j])
    with d True show ?thesis
      by simp
  next
    case False
    have "idx ! j \<notin> fst ` set ?sel"
    proof
      assume "idx ! j \<in> fst ` set ?sel"
      then obtain i where "i < length idx" "P i" "idx ! i = idx ! j"
        using assms(2) by auto
      with assms(1,3) have "i = j"
        by (simp add: nth_eq_iff_index_eq)
      with \<open>P i\<close> False show False by simp
    qed
    with False show ?thesis
      by (simp add: map_of_eq_None_iff)
  qed
qed

lemma found_selected:
  assumes "distinct idx" and "length (v :: cell list) = length idx"
  shows "map (map_of (map ((!) (zip idx v)) (filter P [0..<length idx]))) idx =
     map (\<lambda>i. if P i then Some (v ! i) else None) [0..<length idx]"
proof (rule nth_equalityI)
  show "length (map (map_of (map ((!) (zip idx v)) (filter P [0..<length idx]))) idx) =
      length (map (\<lambda>i. if P i then Some (v ! i) else None) [0..<length idx])"
    by simp
next
  fix j
  assume "j < length (map (map_of (map ((!) (zip idx v)) (filter P [0..<length idx]))) idx)"
  then have j: "j < length idx"
    by simp
  then show "map (map_of (map ((!) (zip idx v)) (filter P [0..<length idx]))) idx ! j =
      map (\<lambda>i. if P i then Some (v ! i) else None) [0..<length idx] ! j"
    using selected_lookup [OF assms j, of P] by simp
qed

lemma reindex_selected:
  assumes "distinct idx" and "length (v :: cell list) = length idx" and "idx \<noteq> []" and "\<not> P 0"
  shows "reindex (map ((!) (zip idx v)) (filter P [0..<length idx])) idx = aligned v P"
proof -
  let ?found = "map (\<lambda>i. if P i then Some (v ! i) else None) [0..<length idx]"
  have f: "map (map_of (map ((!) (zip idx v)) (filter P [0..<length idx]))) idx = ?found"
    using assms(1,2) by (rule found_selected)
  have "0 < length idx"
    using assms(3) by simp
  then have "?found ! 0 = None"
    using assms(4) by simp
  moreover have "0 < length ?found"
    using assms(3) by simp
  ultimately have "None \<in> set ?found"
    by (metis nth_mem)
  then have "reindex (map ((!) (zip idx v)) (filter P [0..<length idx])) idx =
      map (\<lambda>x. case x of None \<Rightarrow> F NaN | Some c \<Rightarrow> F (as_f64 c)) ?found"
    by (simp add: reindex_def f Let_def)
  also have "\<dots> = aligned v P"
    using assms(2) by (simp add: aligned_def comp_def if_distrib cong: if_cong)
  finally show ?thesis .
qed

lemma filter_upt_shorter:
  assumes "0 < n" and "\<not> P 0"
  shows "length (filter P [0..<n]) < n"
proof -
  have "[0..<n] = 0 # [Suc 0..<n]"
    using assms(1) by (simp add: upt_rec)
  then have "length (filter P [0..<n]) = length (filter P [Suc 0..<n])"
    using assms(2) by simp
  also have "\<dots> \<le> length [Suc 0..<n]"
    by (rule length_filter_le)
  also have "\<dots> < n"
    using assms(1) by simp
  finally show ?thesis .
qed

lemma setitem_selected:
  assumes "distinct (index r)" and "length v = length (index r)" and "\<not> P 0"
  shows "setitem_series r name (map ((!) (zip (index r) v)) (filter P [0..<length (index r)])) =
     Inr (r\<lparr>columns := set_column name (aligned v P) (columns r)\<rparr>)"
proof (cases "index r = []")
  case True
  with assms(2) show ?thesis
    by (simp add: setitem_series_def setitem_list_def vals_def aligned_def)
next
  case False
  let ?sel = "map ((!) (zip (index r) v)) (filter P [0..<length (index r)])"
  have "length (filter P [0..<length (index r)]) < length (index r)"
    using False assms(3) by (simp add: filter_upt_shorter)
  then have "length (labels ?sel) \<noteq> length (index r)"
    by simp
  then have "labels ?sel \<noteq> index r"
    by metis
  moreover have "distinct (labels ?sel)"
    using assms(1,2) by (rule selected_labels_distinct)
  moreover have "reindex ?sel (index r) = aligned v P"
    using assms(1,2) False assms(3) by (rule reindex_selected)
  moreover have "length (aligned v P) = length (index r)"
    using assms(2) by (simp add: aligned_def)
  ultimately show ?thesis
    using False by (simp add: setitem_series_def setitem_list_def)
qed

lemma setitem_aligned:
  assumes "length col = length (index r)"
  shows "setitem_series r name (zip (index r) col) =
     Inr (r\<lparr>columns := set_column name col (columns r)\<rparr>)"
  using assms by (simp add: setitem_series_def setitem_list_def)

lemma float_maximum_first: "\<not> float_maximum v 0"
  by (simp add: float_maximum_def)

lemma float_minimum_first: "\<not> float_minimum v 0"
  by (simp add: float_minimum_def)

lemma length_rolling_column [simp]: "length (rolling_column np w vs) = length vs"
  by (simp add: rolling_column_def)

lemma length_diff_column [simp]: "length (diff_column np vs) = length vs"
  by (simp add: diff_column_def)

lemma moving_average_result:
  assumes "consistent np st"
  shows "fst (moving_average np self args kwargs st) =
     fst (moving_average_func np (objects st) (Obj self # args) kwargs ())"
proof -
  from moving_average_run [OF assms, of self args kwargs]
  obtain st1 where "moving_average np self args kwargs st =
      (fst (moving_average_func np (objects st) (Obj self # args) kwargs ()), st1)"
    by blast
  then show ?thesis by simp
qed

lemma differential_result:
  assumes "consistent np st"
  shows "fst (differential np self args kwargs st) =
     fst (differential_func np (objects st) (Obj self # args) kwargs ())"
proof -
  from differential_run [OF assms, of self args kwargs]
  obtain st1 where "differential np self args kwargs st =
      (fst (differential_func np (objects st) (Obj self # args) kwargs ()), st1)"
    by blast
  then show ?thesis by simp
qed

lemma autocorrelation_result:
  assumes "consistent np st"
  shows "fst (autocorrelation np self args kwargs st) =
     fst (autocorrelation_func np (objects st) (Obj self # args) kwargs ())"
proof -
  from autocorrelation_run [OF assms, of self args kwargs]
  obtain st1 where "autocorrelation np self args kwargs st =
      (fst (autocorrelation_func np (objects st) (Obj self # args) kwargs ()), st1)"
    by blast
  then show ?thesis by simp
qed

lemma find_extremes_result:
  assumes "consistent np st"
  shows "fst (find_extremes self args kwargs st) =
     fst (find_extremes_func (objects st) (Obj self # args) kwargs ())"
proof -
  from find_extremes_run [OF assms, of self args kwargs]
  obtain st1 where "find_extremes self args kwargs st =
      (fst (find_extremes_func (objects st) (Obj self # args) kwargs ()), st1)"
    by blast
  then show ?thesis by simp
qed

lemma process_data_pure_tail:
  assumes col: "map_of (columns df) ''temperature'' = Some v"
    and len: "length v = length (index df)"
    and small: "int (length (index df)) < 2 ^ 63"
  shows "process_data_pure np df =
     then_sum
       (setitem_series
          \<lparr>index = index df,
             columns =
               [(''temperature'', v),
                (''moving_average'', rolling_column np 7 v),
                (''differential'', diff_column np v),
                (''autocorrelation'', map F (map (\<lambda>lag. autocorr_value np (int lag) (zip (index df) v)) [0..<length v]))]\<rparr>
          ''maxima'' (map ((!) (zip (index df) v)) (filter (float_maximum v) [0..<length v])))
       (\<lambda>result5. setitem_series result5 ''minima''
          (map ((!) (zip (index df) v)) (filter (float_minimum v) [0..<length v])))"
proof -
  let ?idx = "index df"
  let ?t = "zip ?idx v"
  let ?ma = "rolling_column np 7 v"
  let ?d = "diff_column np v"
  let ?ac = "map F (map (\<lambda>lag. autocorr_value np (int lag) ?t) [0..<length ?idx])"
  let ?r0 = "\<lparr>index = ?idx, columns = []\<rparr>"
  let ?r1 = "\<lparr>index = ?idx, columns = [(''temperature'', v)]\<rparr>"
  let ?r2 = "\<lparr>index = ?idx, columns = [(''temperature'', v), (''moving_average'', ?ma)]\<rparr>"
  let ?r3 = "\<lparr>index = ?idx, columns = [(''temperature'', v), (''moving_average'', ?ma),
      (''differential'', ?d)]\<rparr>"
  let ?r4 = "\<lparr>index = ?idx, columns = [(''temperature'', v), (''moving_average'', ?ma),
      (''differential'', ?d), (''autocorrelation'', ?ac)]\<rparr>"
  have g: "getitem df ''temperature'' = Inr ?t"
    using col len by (rule getitem_Inr)
  have s1: "setitem_series ?r0 ''temperature'' ?t = Inr ?r1"
    using len setitem_aligned [of v ?r0 "''temperature''"] by simp
  have ma: "moving_average_body np df 7 = Inr (zip ?idx ?ma)"
    using len by (simp add: moving_average_body_def g rolling_mean_def index_range_def)
  have s2: "setitem_series ?r1 ''moving_average'' (zip ?idx ?ma) = Inr ?r2"
    using len setitem_aligned [of ?ma ?r1 "''moving_average''"] by simp
  have d: "differential_body np df = Inr (zip ?idx ?d)"
    using len by (simp add: differential_body_def g diff_def)
  have s3: "setitem_series ?r2 ''differential'' (zip ?idx ?d) = Inr ?r3"
    using len setitem_aligned [of ?d ?r2 "''differential''"] by simp
  have ac: "autocorr_all np ?t [0..<length ?idx] =
      Inr (map (\<lambda>lag. autocorr_value np (int lag) ?t) [0..<length ?idx])"
    using small by (intro autocorr_all_in_range) simp
  have s4: "setitem_list ?r3 ''autocorrelation'' ?ac = Inr ?r4"
    by (simp add: setitem_list_def)
  have fe: "find_extremes_body df =
      Inr (map ((!) ?t) (filter (float_maximum v) [0..<length ?idx]),
           map ((!) ?t) (filter (float_minimum v) [0..<length ?idx]))"
    using len find_extremes_body_eq [OF g] by simp
  have "process_data_pure np df =
     then_sum (setitem_series ?r4 ''maxima'' (map ((!) ?t) (filter (float_maximum v) [0..<length ?idx])))
       (\<lambda>result5. then_sum (setitem_series result5 ''minima''
          (map ((!) ?t) (filter (float_minimum v) [0..<length ?idx]))) Inr)"
    unfolding process_data_pure_steps
    by (simp only: g then_sum_def sum.case s1 ma s2 d s3 ac s4 fe fst_conv snd_conv)
  then show ?thesis
    using len by (simp add: then_sum_def sum_case_id)
qed

lemma process_data_pure_table:
  assumes col: "map_of (columns df) ''temperature'' = Some v"
    and len: "length v = length (index df)"
    and small: "int (length (index df)) < 2 ^ 63"
    and dist: "distinct (index df)"
  shows "process_data_pure np df =
     Inr \<lparr>index = index df,
          columns =
            [(''temperature'', v),
             (''moving_average'', rolling_column np 7 v),
             (''differential'', diff_column np v),
             (''autocorrelation'', map F (map (\<lambda>lag. autocorr_value np (int lag) (zip (index df) v)) [0..<length v])),
             (''maxima'', aligned v (float_maximum v)),
             (''minima'', aligned v (float_minimum v))]\<rparr>"
proof -
  let ?ac = "map F (map (\<lambda>lag. autocorr_value np (int lag) (zip (index df) v)) [0..<length v])"
  let ?r4 = "\<lparr>index = index df, columns = [(''temperature'', v), (''moving_average'', rolling_column np 7 v),
      (''differential'', diff_column np v), (''autocorrelation'', ?ac)]\<rparr>"
  let ?r5 = "\<lparr>index = index df, columns = [(''temperature'', v), (''moving_average'', rolling_column np 7 v),
      (''differential'', diff_column np v), (''autocorrelation'', ?ac),
      (''maxima'', aligned v (float_maximum v))]\<rparr>"
  have s5: "setitem_series ?r4 ''maxima'' (map ((!) (zip (index df) v)) (filter (float_maximum v) [0..<length v])) = Inr ?r5"
    using setitem_selected [of ?r4 v "float_maximum v" "''maxima''"] dist len float_maximum_first
    by simp
  have s6: "setitem_series ?r5 ''minima'' (map ((!) (zip (index df) v)) (filter (float_minimum v) [0..<length v])) =
      Inr \<lparr>index = index df, columns = [(''temperature'', v), (''moving_average'', rolling_column np 7 v),
      (''differential'', diff_column np v), (''autocorrelation'', ?ac),
      (''maxima'', aligned v (float_maximum v)), (''minima'', aligned v (float_minimum v))]\<rparr>"
    using setitem_selected [of ?r5 v "float_minimum v" "''minima''"] dist len float_minimum_first
    by simp
  show ?thesis
    unfolding process_data_pure_tail [OF col len small]
    by (simp only: s5 s6 then_sum_def sum.case)
qed

section \<open>Local extrema\<close>

text \<open>
  C9, as stated, fails on an integer column with values above \<open>2^53\<close>: the shifted
  neighbours and the value itself are compared as float64, and \<open>2^53 + 1\<close> becomes
  \<open>2^53\<close>. The middle row below is strictly greater than both neighbours and
  \<^verbatim>\<open>find_extremes\<close> returns no maximum.
\<close>

theorem big_integer_maximum_missed:
  "local_maximum [I 9007199254740992, I 9007199254740993, I 9007199254740992] 1 \<and>
   fst (find_extremes 0 [] [] (fresh (\<lambda>p. table_big))) = Inr ([], [])"
proof -
  let ?v = "[I 9007199254740992, I 9007199254740993, I 9007199254740992]"
  have g: "getitem table_big ''temperature'' = Inr (zip [0, 1, 2] ?v)"
    by (simp add: getitem_def table_big_def)
  have upt3: "[0..<3] = [0, 1, 2]"
    by (simp add: upt_rec)
  have no_max: "filter (float_maximum ?v) [0, 1, 2] = []"
    by (simp add: float_maximum_def int_to_f64_above int_to_f64_two53)
  have no_min: "filter (float_minimum ?v) [0, 1, 2] = []"
    by (simp add: float_minimum_def int_to_f64_above int_to_f64_two53)
  have v: "vals (zip [0, 1, 2 :: nat] ?v) = ?v"
    by (simp add: vals_def)
  have n: "[0..<length (zip [0, 1, 2 :: nat] ?v)] = [0, 1, 2]"
    by (simp add: upt3)
  have "find_extremes_body table_big = Inr ([], [])"
    using find_extremes_body_eq [OF g, unfolded v n no_max no_min] by simp
  then have "fst (find_extremes 0 [] [] (fresh (\<lambda>p. table_big))) = Inr ([], [])"
    by (simp add: find_extremes_result [OF consistent_fresh] find_extremes_func_call)
  moreover have "local_maximum ?v 1"
    by (simp add: local_maximum_def)
  ultimately show ?thesis
    by simp
qed

text \<open>
  C9, amended. \<^verbatim>\<open>find_extremes\<close> returns the rows of the temperature series at the
  local maxima and the rows at the local minima of the values taken as float64, in
  order, each with its label and its value, and no other row: a row is a maximum
  exactly when it is neither the first nor the last and its float64 value is strictly
  greater than the float64 values of both neighbours (strictly less for a minimum). When
  every value is one that float64 represents exactly (a float64, or an integer of
  magnitude up to \<open>2^53\<close>), these are the local maxima and minima of the values
  themselves.
\<close>

theorem find_extremes_strict_neighbours:
  assumes "consistent np st" and "getitem (objects st self) ''temperature'' = Inr t"
  shows "fst (find_extremes self [] [] st) =
           Inr (map ((!) t) (filter (float_maximum (vals t)) [0..<length t]),
                map ((!) t) (filter (float_minimum (vals t)) [0..<length t])) \<and>
         (list_all representable (vals t) \<longrightarrow>
            fst (find_extremes self [] [] st) =
              Inr (map ((!) t) (filter (local_maximum (vals t)) [0..<length t]),
                   map ((!) t) (filter (local_minimum (vals t)) [0..<length t])))"
proof -
  have "fst (find_extremes self [] [] st) = find_extremes_body (objects st self)"
    by (simp add: find_extremes_result [OF assms(1)] find_extremes_func_call)
  with assms(2) have code: "fst (find_extremes self [] [] st) =
           Inr (map ((!) t) (filter (float_maximum (vals t)) [0..<length t]),
                map ((!) t) (filter (float_minimum (vals t)) [0..<length t]))"
    by (simp add: find_extremes_body_eq)
  have "float_maximum (vals t) = local_maximum (vals t)" "float_minimum (vals t) = local_minimum (vals t)"
    if "list_all representable (vals t)"
    using that by (auto simp: fun_eq_iff float_maximum_exact float_minimum_exact)
  with code show ?thesis
    by simp
qed

lemma upt10: "[0..<10] = [0, 1, 2, 3, 4, 5, 6, 7, 8, 9]"
  by (simp add: upt_rec)

theorem find_extremes_strict_neighbours_witness:
  "\<forall>np. consistent np (fresh (\<lambda>p. table10)) \<and>
     getitem table10 ''temperature'' =
       Inr [(0, I 0), (1, I 1), (2, I 2), (3, I 1), (4, I 3), (5, I 4), (6, I 2), (7, I 5), (8, I 6), (9, I 7)] \<and>
     list_all representable [I 0, I 1, I 2, I 1, I 3, I 4, I 2, I 5, I 6, I 7] \<and>
     fst (find_extremes 0 [] [] (fresh (\<lambda>p. table10))) =
       Inr ([(2, I 2), (5, I 4)], [(3, I 1), (6, I 2)])"
proof
  fix np
  let ?t = "[(0, I 0), (1, I 1), (2, I 2), (3, I 1), (4, I 3), (5, I 4), (6, I 2), (7, I 5), (8, I 6), (9, I 7)] :: nat series"
  let ?v = "[I 0, I 1, I 2, I 1, I 3, I 4, I 2, I 5, I 6, I 7]"
  have c: "consistent np (fresh (\<lambda>p. table10))"
    by (rule consistent_fresh)
  have g: "getitem (objects (fresh (\<lambda>p. table10)) 0) ''temperature'' = Inr ?t"
    by (simp add: getitem_def table10_def)
  have v: "vals ?t = ?v"
    by (simp add: vals_def)
  have r: "list_all representable ?v"
    by (simp add: representable_int)
  have n: "[0..<length ?t] = [0, 1, 2, 3, 4, 5, 6, 7, 8, 9]"
    by (simp add: upt10)
  have mx: "map ((!) ?t) (filter (local_maximum ?v) [0, 1, 2, 3, 4, 5, 6, 7, 8, 9]) = [(2, I 2), (5, I 4)]"
    by (simp add: local_maximum_def)
  have mn: "map ((!) ?t) (filter (local_minimum ?v) [0, 1, 2, 3, 4, 5, 6, 7, 8, 9]) = [(3, I 1), (6, I 2)]"
    by (simp add: local_minimum_def)
  note res = find_extremes_strict_neighbours [OF c g, THEN conjunct2, unfolded v, rule_format, OF r,
      unfolded n mx mn]
  from c g r res
  show "consistent np (fresh (\<lambda>p. table10)) \<and>
     getitem table10 ''temperature'' = Inr ?t \<and> list_all representable ?v \<and>
     fst (find_extremes 0 [] [] (fresh (\<lambda>p. table10))) =
       Inr ([(2, I 2), (5, I 4)], [(3, I 1), (6, I 2)])"
    by simp
qed

section \<open>The aggregate table\<close>

text \<open>
  C1, as stated, fails on a table with a repeated date: the sparse maxima and minima
  are aligned by label, so a row that shares its date with a maximum gets the
  maximum's value. Below, the maxima are at the second and the fourth of five rows;
  the first and the last row, which are no extrema, hold a value in the maxima column.
\<close>

theorem repeated_date_misaligns_maxima:
  "\<forall>np. fst (find_extremes 0 [] [] (fresh (\<lambda>p. table_dup))) = Inr ([(0, I 2), (2, I 3)], [(1, I 1)]) \<and>
     (\<exists>res. fst (process_data np 0 [] [] (fresh (\<lambda>p. table_dup))) = Inr res \<and>
        index res = [0, 0, 1, 2, 2] \<and>
        map_of (columns res) ''maxima'' = Some [F (Fin 2), F (Fin 2), F NaN, F (Fin 3), F (Fin 3)])"
proof
  fix np
  let ?v = "[I 1, I 2, I 1, I 3, I 1]"
  let ?idx = "[0, 0, 1, 2, 2] :: nat list"
  let ?ac = "map F (map (\<lambda>lag. autocorr_value np (int lag) (zip ?idx ?v)) [0, 1, 2, 3, 4])"
  let ?r4 = "\<lparr>index = ?idx, columns = [(''temperature'', ?v), (''moving_average'', rolling_column np 7 ?v),
      (''differential'', diff_column np ?v), (''autocorrelation'', ?ac)]\<rparr>"
  let ?mxcol = "[F (Fin 2), F (Fin 2), F NaN, F (Fin 3), F (Fin 3)]"
  let ?mncol = "[F NaN, F NaN, F (Fin 1), F NaN, F NaN]"
  let ?r5 = "\<lparr>index = ?idx, columns = [(''temperature'', ?v), (''moving_average'', rolling_column np 7 ?v),
      (''differential'', diff_column np ?v), (''autocorrelation'', ?ac), (''maxima'', ?mxcol)]\<rparr>"
  let ?r6 = "\<lparr>index = ?idx, columns = [(''temperature'', ?v), (''moving_average'', rolling_column np 7 ?v),
      (''differential'', diff_column np ?v), (''autocorrelation'', ?ac), (''maxima'', ?mxcol),
      (''minima'', ?mncol)]\<rparr>"
  have idx: "index table_dup = ?idx" and col: "map_of (columns table_dup) ''temperature'' = Some ?v"
    by (simp_all add: table_dup_def)
  have len: "length ?v = length (index table_dup)"
    by (simp add: idx)
  have g: "getitem table_dup ''temperature'' = Inr (zip ?idx ?v)"
    using getitem_Inr [OF col len] by (simp only: idx)
  have upt5: "[0..<length ?v] = [0, 1, 2, 3, 4]"
    by (simp add: upt_rec)
  have two: "int_to_f64 2 = 2" and three: "int_to_f64 3 = 3" and one: "int_to_f64 1 = 1"
    by (simp_all add: int_to_f64_exact)
  have mx: "map ((!) (zip ?idx ?v)) (filter (float_maximum ?v) [0, 1, 2, 3, 4]) = [(0, I 2), (2, I 3)]"
    by (simp add: float_maximum_def two three one)
  have mn: "map ((!) (zip ?idx ?v)) (filter (float_minimum ?v) [0, 1, 2, 3, 4]) = [(1, I 1)]"
    by (simp add: float_minimum_def two three one)
  have s5: "setitem_series ?r4 ''maxima'' [(0, I 2), (2, I 3)] = Inr ?r5"
    by (simp add: setitem_series_def setitem_list_def labels_def reindex_def two three)
  have s6: "setitem_series ?r5 ''minima'' [(1, I 1)] = Inr ?r6"
    by (simp add: setitem_series_def setitem_list_def labels_def reindex_def one)
  have small: "int (length (index table_dup)) < 2 ^ 63"
    by (simp add: idx)
  have pure: "process_data_pure np table_dup = Inr ?r6"
    unfolding process_data_pure_tail [OF col len small]
    by (simp only: idx upt5 mx mn s5 s6 then_sum_def sum.case)
  have res: "fst (process_data np 0 [] [] (fresh (\<lambda>p. table_dup))) = Inr ?r6"
    using process_data_run(1) [OF consistent_fresh, of np 0 "[]" "[]" "\<lambda>p. table_dup"] pure
    by (simp add: process_data_result_def bind0_def)
  have props: "index ?r6 = [0, 0, 1, 2, 2] \<and> map_of (columns ?r6) ''maxima'' = Some ?mxcol"
    by simp
  have ex: "\<exists>res. fst (process_data np 0 [] [] (fresh (\<lambda>p. table_dup))) = Inr res \<and>
        index res = [0, 0, 1, 2, 2] \<and> map_of (columns res) ''maxima'' = Some ?mxcol"
    by (intro exI [where x = ?r6] conjI [OF res props])
  have v: "vals (zip ?idx ?v) = ?v"
    by (simp add: vals_def)
  have n: "[0..<length (zip ?idx ?v)] = [0, 1, 2, 3, 4]"
    by (simp add: upt_rec)
  have "find_extremes_body table_dup = Inr ([(0, I 2), (2, I 3)], [(1, I 1)])"
    by (rule find_extremes_body_eq [OF g, unfolded v n mx mn])
  then have fe: "fst (find_extremes 0 [] [] (fresh (\<lambda>p. table_dup))) = Inr ([(0, I 2), (2, I 3)], [(1, I 1)])"
    by (simp add: find_extremes_result [OF consistent_fresh] find_extremes_func_call)
  from fe ex
  show "fst (find_extremes 0 [] [] (fresh (\<lambda>p. table_dup))) = Inr ([(0, I 2), (2, I 3)], [(1, I 1)]) \<and>
     (\<exists>res. fst (process_data np 0 [] [] (fresh (\<lambda>p. table_dup))) = Inr res \<and>
        index res = [0, 0, 1, 2, 2] \<and> map_of (columns res) ''maxima'' = Some ?mxcol)"
    by (rule conjI)
qed

text \<open>
  C1, amended. On a consistent state, for a table with a temperature column \<open>v\<close> over
  an index of distinct labels (a table as pandas keeps it: one value per row in every
  column, the number of rows within the index type), \<^verbatim>\<open>process_data()\<close> returns a table with the input's
  index and exactly the six columns temperature, moving_average, differential,
  autocorrelation, maxima, minima, every one with one value per row: the temperature
  column is \<open>v\<close>; the moving_average and differential columns are the values
  \<^verbatim>\<open>moving_average(window=7)\<close> and \<^verbatim>\<open>differential()\<close> return; row \<open>i\<close> of the
  autocorrelation column is what \<^verbatim>\<open>autocorrelation(i)\<close> returns; and the maxima (minima)
  column holds the float64 value of the row where \<^verbatim>\<open>find_extremes()\<close> has a maximum
  (minimum) and NaN at every other row.
\<close>

theorem process_data_table:
  assumes cons: "consistent np st"
    and frame: "dataframe (objects st self)"
    and col: "map_of (columns (objects st self)) ''temperature'' = Some v"
    and dist: "distinct (index (objects st self))"
  shows "fst (process_data np self [] [] st) =
       Inr \<lparr>index = index (objects st self),
            columns =
              [(''temperature'', v),
               (''moving_average'', rolling_column np 7 v),
               (''differential'', diff_column np v),
               (''autocorrelation'',
                  map (\<lambda>lag. F (autocorr_value np (int lag) (zip (index (objects st self)) v))) [0..<length v]),
               (''maxima'', aligned v (float_maximum v)),
               (''minima'', aligned v (float_minimum v))]\<rparr> \<and>
     fst (moving_average np self [] [(''window'', PyInt 7)] (snd (process_data np self [] [] st))) =
       Inr (zip (index (objects st self)) (rolling_column np 7 v)) \<and>
     fst (differential np self [] [] (snd (process_data np self [] [] st))) =
       Inr (zip (index (objects st self)) (diff_column np v)) \<and>
     (\<forall>i<length v.
        fst (autocorrelation np self [PyInt (int i)] [] (snd (process_data np self [] [] st))) =
          Inr (autocorr_value np (int i) (zip (index (objects st self)) v))) \<and>
     fst (find_extremes self [] [] (snd (process_data np self [] [] st))) =
       Inr (map ((!) (zip (index (objects st self)) v)) (filter (float_maximum v) [0..<length v]),
            map ((!) (zip (index (objects st self)) v)) (filter (float_minimum v) [0..<length v]))"
proof -
  let ?df = "objects st self"
  let ?st' = "snd (process_data np self [] [] st)"
  let ?t = "zip (index ?df) v"
  from col have "(''temperature'', v) \<in> set (columns ?df)"
    by (rule map_of_SomeD)
  with frame have len: "length v = length (index ?df)"
    by (auto simp: dataframe_def list_all_iff)
  from frame have small: "int (length (index ?df)) < 2 ^ 63"
    by (simp add: dataframe_def)
  have g: "getitem ?df ''temperature'' = Inr ?t"
    using col len by (rule getitem_Inr)
  have c': "consistent np ?st'" and o': "objects ?st' = objects st"
    using process_data_run(2,3) [OF cons] by simp_all
  have "fst (process_data np self [] [] st) = process_data_pure np ?df"
    using process_data_run(1) [OF cons, of self "[]" "[]"]
    by (simp add: process_data_result_def bind0_def)
  then have table: "fst (process_data np self [] [] st) =
       Inr \<lparr>index = index ?df,
            columns =
              [(''temperature'', v),
               (''moving_average'', rolling_column np 7 v),
               (''differential'', diff_column np v),
               (''autocorrelation'', map (\<lambda>lag. F (autocorr_value np (int lag) ?t)) [0..<length v]),
               (''maxima'', aligned v (float_maximum v)),
               (''minima'', aligned v (float_minimum v))]\<rparr>"
    using process_data_pure_table [OF col len small dist, of np] by (simp add: comp_def)
  have ma: "fst (moving_average np self [] [(''window'', PyInt 7)] ?st') =
       Inr (zip (index ?df) (rolling_column np 7 v))"
    using len
    by (simp add: moving_average_result [OF c'] o' moving_average_func_keyword
        moving_average_body_def g rolling_mean_def index_range_def)
  have d: "fst (differential np self [] [] ?st') = Inr (zip (index ?df) (diff_column np v))"
    using len
    by (simp add: differential_result [OF c'] o' differential_func_call differential_body_def g diff_def)
  have ac: "fst (autocorrelation np self [PyInt (int i)] [] ?st') = Inr (autocorr_value np (int i) ?t)"
    if "i < length v" for i
  proof -
    from that len small have "index_range (int i)"
      by (simp add: index_range_def)
    then show ?thesis
      by (simp add: autocorrelation_result [OF c'] o' autocorrelation_func_positional
          autocorrelation_body_def g autocorr_in_range)
  qed
  have fe: "fst (find_extremes self [] [] ?st') =
       Inr (map ((!) ?t) (filter (float_maximum v) [0..<length v]),
            map ((!) ?t) (filter (float_minimum v) [0..<length v]))"
    using find_extremes_body_eq [OF g] len
    by (simp add: find_extremes_result [OF c'] o' find_extremes_func_call)
  from table ma d ac fe show ?thesis
    by blast
qed

theorem process_data_table_witness:
  "\<forall>np. consistent np (fresh (\<lambda>p. table10)) \<and>
     dataframe table10 \<and>
     map_of (columns table10) ''temperature'' =
       Some [I 0, I 1, I 2, I 1, I 3, I 4, I 2, I 5, I 6, I 7] \<and>
     distinct (index table10) \<and>
     (\<exists>res. fst (process_data np 0 [] [] (fresh (\<lambda>p. table10))) = Inr res \<and>
        index res = [0, 1, 2, 3, 4, 5, 6, 7, 8, 9] \<and>
        map fst (columns res) =
          [''temperature'', ''moving_average'', ''differential'', ''autocorrelation'', ''maxima'', ''minima''] \<and>
        map_of (columns res) ''temperature'' =
          Some [I 0, I 1, I 2, I 1, I 3, I 4, I 2, I 5, I 6, I 7] \<and>
        map_of (columns res) ''maxima'' =
          Some [F NaN, F NaN, F (Fin 2), F NaN, F NaN, F (Fin 4), F NaN, F NaN, F NaN, F NaN] \<and>
        map_of (columns res) ''minima'' =
          Some [F NaN, F NaN, F NaN, F (Fin 1), F NaN, F NaN, F (Fin 2), F NaN, F NaN, F NaN])"
proof
  fix np
  let ?v = "[I 0, I 1, I 2, I 1, I 3, I 4, I 2, I 5, I 6, I 7]"
  let ?idx = "[0, 1, 2, 3, 4, 5, 6, 7, 8, 9] :: nat list"
  let ?mx = "[F NaN, F NaN, F (Fin 2), F NaN, F NaN, F (Fin 4), F NaN, F NaN, F NaN, F NaN]"
  let ?mn = "[F NaN, F NaN, F NaN, F (Fin 1), F NaN, F NaN, F (Fin 2), F NaN, F NaN, F NaN]"
  have c: "consistent np (fresh (\<lambda>p. table10))"
    by (rule consistent_fresh)
  have obj: "objects (fresh (\<lambda>p. table10)) 0 = table10"
    by simp
  have idx: "index table10 = ?idx"
    by (simp add: table10_def)
  have col: "map_of (columns table10) ''temperature'' = Some ?v"
    by (simp add: table10_def)
  have frame: "dataframe table10"
    by (simp add: dataframe_def table10_def)
  have dist: "distinct (index table10)"
    by (simp add: idx)
  have mx: "aligned ?v (float_maximum ?v) = ?mx"
    by (simp add: aligned_def upt10 float_maximum_def int_to_f64_exact)
  have mn: "aligned ?v (float_minimum ?v) = ?mn"
    by (simp add: aligned_def upt10 float_minimum_def int_to_f64_exact)
  note table = process_data_table [of np "fresh (\<lambda>p. table10)" 0 ?v, unfolded obj, OF c frame col dist,
      THEN conjunct1, unfolded idx mx mn]
  let ?res = "\<lparr>index = ?idx,
            columns =
              [(''temperature'', ?v),
               (''moving_average'', rolling_column np 7 ?v),
               (''differential'', diff_column np ?v),
               (''autocorrelation'', map (\<lambda>lag. F (autocorr_value np (int lag) (zip ?idx ?v))) [0..<length ?v]),
               (''maxima'', ?mx),
               (''minima'', ?mn)]\<rparr>"
  have res: "fst (process_data np 0 [] [] (fresh (\<lambda>p. table10))) = Inr ?res"
    by (rule table)
  have props: "index ?res = [0, 1, 2, 3, 4, 5, 6, 7, 8, 9] \<and>
      map fst (columns ?res) =
        [''temperature'', ''moving_average'', ''differential'', ''autocorrelation'', ''maxima'', ''minima''] \<and>
      map_of (columns ?res) ''temperature'' = Some ?v \<and>
      map_of (columns ?res) ''maxima'' = Some ?mx \<and>
      map_of (columns ?res) ''minima'' = Some ?mn"
    by simp
  have ex: "\<exists>res. fst (process_data np 0 [] [] (fresh (\<lambda>p. table10))) = Inr res \<and>
      index res = [0, 1, 2, 3, 4, 5, 6, 7, 8, 9] \<and>
      map fst (columns res) =
        [''temperature'', ''moving_average'', ''differential'', ''autocorrelation'', ''maxima'', ''minima''] \<and>
      map_of (columns res) ''temperature'' = Some ?v \<and>
      map_of (columns res) ''maxima'' = Some ?mx \<and>
      map_of (columns res) ''minima'' = Some ?mn"
    by (intro exI [where x = ?res] conjI [OF res props])
  from c frame col dist ex
  show "consistent np (fresh (\<lambda>p. table10)) \<and>
     dataframe table10 \<and>
     map_of (columns table10) ''temperature'' = Some ?v \<and>
     distinct (index table10) \<and>
     (\<exists>res. fst (process_data np 0 [] [] (fresh (\<lambda>p. table10))) = Inr res \<and>
        index res = [0, 1, 2, 3, 4, 5, 6, 7, 8, 9] \<and>
        map fst (columns res) =
          [''temperature'', ''moving_average'', ''differential'', ''autocorrelation'', ''maxima'', ''minima''] \<and>
        map_of (columns res) ''temperature'' = Some ?v \<and>
        map_of (columns res) ''maxima'' = Some ?mx \<and>
        map_of (columns res) ''minima'' = Some ?mn)"
    by (intro conjI)
qed

section \<open>Arguments out of range\<close>

lemma rolling_column_zero: "rolling_column np 0 vs = replicate (length vs) (F NaN)"
  by (simp add: rolling_column_def rolling_at_def window_at_def map_replicate_const)

lemma shift_vals_far:
  assumes "int (length vs) \<le> \<bar>k\<bar>"
  shows "shift_vals k vs = replicate (length vs) (F NaN)"
proof (cases "k = 0")
  case True
  with assms show ?thesis
    by (simp add: shift_vals_def)
next
  case False
  show ?thesis
  proof (cases "0 < k")
    case True
    with assms have "length vs \<le> nat k"
      by simp
    with True show ?thesis
      by (simp add: shift_vals_def Let_def min_def)
  next
    case neg: False
    with False assms have "length vs \<le> nat (- k)"
      by simp
    with False neg show ?thesis
      by (simp add: shift_vals_def Let_def min_def)
  qed
qed

lemma valid_pairs_missing: "valid_pairs a (replicate n NaN) = []"
  by (auto simp: valid_pairs_def filter_empty_conv notna_def dest: set_zip_rightD)

lemma corr_missing: "corr np a (replicate n (F NaN)) = NaN"
  by (simp add: corr_def valid_pairs_missing)

lemma autocorr_value_far:
  assumes "int (length t) \<le> \<bar>lag\<bar>"
  shows "autocorr_value np lag t = NaN"
  using assms by (simp add: autocorr_value_def shift_vals_far corr_missing)

text \<open>
  C3, as stated, fails: the code validates neither argument and pandas accepts more
  than the claim allows. On the series 0, 1, 3 a window of 0 returns a series of
  missing values, the lag 3 (the length of the series) returns NaN and the lag \<open>-1\<close>
  returns the correlation of the two pairs the opposite shift leaves.
\<close>

theorem zero_window_and_far_lag_accepted:
  "\<forall>np. fst (moving_average np 0 [PyInt 0] [] (fresh (\<lambda>p. table3))) =
          Inr [(0, F NaN), (1, F NaN), (2, F NaN)] \<and>
        fst (autocorrelation np 0 [PyInt 3] [] (fresh (\<lambda>p. table3))) = Inr NaN \<and>
        fst (autocorrelation np 0 [PyInt (- 1)] [] (fresh (\<lambda>p. table3))) =
          Inr (corr_op np [(Fin 0, Fin 1), (Fin 1, Fin 3)])"
proof
  fix np
  have g: "getitem table3 ''temperature'' = Inr [(0, I 0), (1, I 1), (2, I 3)]"
    by (simp add: getitem_def table3_def)
  have ma: "moving_average_body np table3 0 = Inr [(0, F NaN), (1, F NaN), (2, F NaN)]"
    by (simp add: moving_average_body_def g rolling_mean_def index_range_def vals_def labels_def
        rolling_column_zero)
  have far: "autocorrelation_body np table3 3 = Inr NaN"
    by (simp add: autocorrelation_body_def g autocorr_in_range index_range_def autocorr_value_far)
  have zero: "int_to_f64 0 = 0" and one: "int_to_f64 1 = 1" and three: "int_to_f64 3 = 3"
    by (simp_all add: int_to_f64_exact)
  have opp: "autocorrelation_body np table3 (- 1) = Inr (corr_op np [(Fin 0, Fin 1), (Fin 1, Fin 3)])"
    by (simp add: autocorrelation_body_def g autocorr_in_range index_range_def autocorr_value_def
        vals_def shift_vals_def corr_def valid_pairs_def notna_def Let_def zero one three)
  show "fst (moving_average np 0 [PyInt 0] [] (fresh (\<lambda>p. table3))) =
          Inr [(0, F NaN), (1, F NaN), (2, F NaN)] \<and>
        fst (autocorrelation np 0 [PyInt 3] [] (fresh (\<lambda>p. table3))) = Inr NaN \<and>
        fst (autocorrelation np 0 [PyInt (- 1)] [] (fresh (\<lambda>p. table3))) =
          Inr (corr_op np [(Fin 0, Fin 1), (Fin 1, Fin 3)])"
    by (simp add: moving_average_result [OF consistent_fresh] moving_average_func_positional ma
        autocorrelation_result [OF consistent_fresh] autocorrelation_func_positional far opp)
qed

text \<open>
  C3, amended. On a consistent state and a temperature series \<open>t\<close>: a negative window
  is refused with ValueError, raised by pandas when it builds the window and returned
  to the caller as it is; the window 0 is accepted and gives a series of missing values
  over the labels of \<open>t\<close>. A lag that fits the 64-bit index type raises nothing,
  whatever its sign and size: the call returns the correlation of \<open>t\<close> with \<open>t\<close>
  shifted, which is NaN when the lag is as large as the series is long. A lag that
  does not fit fails with OverflowError when there is a row to shift.
\<close>

theorem argument_checks:
  assumes "consistent np st" and "getitem (objects st self) ''temperature'' = Inr t"
  shows "(window < 0 \<longrightarrow> fst (moving_average np self [PyInt window] [] st) = Inl ValueError) \<and>
     fst (moving_average np self [PyInt 0] [] st) = Inr (zip (labels t) (replicate (length t) (F NaN))) \<and>
     (index_range lag \<longrightarrow>
        fst (autocorrelation np self [PyInt lag] [] st) = Inr (autocorr_value np lag t)) \<and>
     (index_range lag \<and> int (length t) \<le> \<bar>lag\<bar> \<longrightarrow>
        fst (autocorrelation np self [PyInt lag] [] st) = Inr NaN) \<and>
     (\<not> index_range big \<and> t \<noteq> [] \<longrightarrow>
        fst (autocorrelation np self [PyInt big] [] st) = Inl OverflowError)"
proof -
  have ma: "fst (moving_average np self [PyInt w] [] st) = rolling_mean np w t" for w
    by (simp add: moving_average_result [OF assms(1)] moving_average_func_positional
        moving_average_body_def assms(2))
  have ac: "fst (autocorrelation np self [PyInt k] [] st) = autocorr np k t" for k
    by (simp add: autocorrelation_result [OF assms(1)] autocorrelation_func_positional
        autocorrelation_body_def assms(2))
  have "window < 0 \<longrightarrow> fst (moving_average np self [PyInt window] [] st) = Inl ValueError"
    by (simp add: ma rolling_mean_def)
  moreover have "fst (moving_average np self [PyInt 0] [] st) =
      Inr (zip (labels t) (replicate (length t) (F NaN)))"
    by (simp add: ma rolling_mean_def index_range_def rolling_column_zero)
  moreover have "index_range lag \<longrightarrow>
      fst (autocorrelation np self [PyInt lag] [] st) = Inr (autocorr_value np lag t)"
    by (simp add: ac autocorr_in_range)
  moreover have "index_range lag \<and> int (length t) \<le> \<bar>lag\<bar> \<longrightarrow>
      fst (autocorrelation np self [PyInt lag] [] st) = Inr NaN"
    by (simp add: ac autocorr_in_range autocorr_value_far)
  moreover have "\<not> index_range big \<and> t \<noteq> [] \<longrightarrow>
      fst (autocorrelation np self [PyInt big] [] st) = Inl OverflowError"
    by (simp add: ac autocorr_out_of_range)
  ultimately show ?thesis
    by (intro conjI)
qed

theorem argument_checks_witness:
  "\<forall>np. consistent np (fresh (\<lambda>p. table3)) \<and>
     getitem table3 ''temperature'' = Inr [(0, I 0), (1, I 1), (2, I 3)] \<and>
     fst (moving_average np 0 [PyInt (- 1)] [] (fresh (\<lambda>p. table3))) = Inl ValueError \<and>
     index_range 5 \<and>
     fst (autocorrelation np 0 [PyInt 5] [] (fresh (\<lambda>p. table3))) = Inr NaN \<and>
     \<not> index_range (2 ^ 63) \<and>
     fst (autocorrelation np 0 [PyInt (2 ^ 63)] [] (fresh (\<lambda>p. table3))) = Inl OverflowError"
proof
  fix np
  have c: "consistent np (fresh (\<lambda>p. table3))"
    by (rule consistent_fresh)
  have obj: "objects (fresh (\<lambda>p. table3)) 0 = table3"
    by simp
  have g: "getitem table3 ''temperature'' = Inr [(0, I 0), (1, I 1), (2, I 3)]"
    by (simp add: getitem_def table3_def)
  have r5: "index_range 5" and r63: "\<not> index_range (2 ^ 63)"
    by (simp_all add: index_range_def)
  note res = argument_checks [of np "fresh (\<lambda>p. table3)" 0 "[(0, I 0), (1, I 1), (2, I 3)]" "- 1" 5 "2 ^ 63",
      unfolded obj, OF c g]
  from res have neg: "fst (moving_average np 0 [PyInt (- 1)] [] (fresh (\<lambda>p. table3))) = Inl ValueError"
    by simp
  from res r5 have far: "fst (autocorrelation np 0 [PyInt 5] [] (fresh (\<lambda>p. table3))) = Inr NaN"
    by (elim conjE) simp
  from res r63 have big: "fst (autocorrelation np 0 [PyInt (2 ^ 63)] [] (fresh (\<lambda>p. table3))) = Inl OverflowError"
    by simp
  from c g neg r5 far r63 big
  show "consistent np (fresh (\<lambda>p. table3)) \<and>
     getitem table3 ''temperature'' = Inr [(0, I 0), (1, I 1), (2, I 3)] \<and>
     fst (moving_average np 0 [PyInt (- 1)] [] (fresh (\<lambda>p. table3))) = Inl ValueError \<and>
     index_range 5 \<and>
     fst (autocorrelation np 0 [PyInt 5] [] (fresh (\<lambda>p. table3))) = Inr NaN \<and>
     \<not> index_range (2 ^ 63) \<and>
     fst (autocorrelation np 0 [PyInt (2 ^ 63)] [] (fresh (\<lambda>p. table3))) = Inl OverflowError"
    by (intro conjI)
qed

section \<open>Short series\<close>











section \<open>The stores of the processor\<close>

lemma stores_le_refl: "stores_le st st"
  by (simp add: stores_le_def)

lemma stores_le_trans: "stores_le a b \<Longrightarrow> stores_le b c \<Longrightarrow> stores_le a c"
  unfolding stores_le_def by (blast intro: map_le_trans)

lemma wrapper_store_grows: "c \<subseteq>\<^sub>m fst (snd (wrapper func args kwargs (c, w)))"
proof -
  obtain r c' w' where "wrapper func args kwargs (c, w) = (r, (c', w'))"
    by (metis prod.exhaust)
  then show ?thesis
    using wrapper_store_mono by fastforce
qed

lemma moving_average_stores: "stores_le st (snd (moving_average np self args kwargs st))"
  using wrapper_store_grows [of "ma_cache st" "moving_average_func np (objects st)" "Obj self # args" kwargs "()"]
  by (simp add: moving_average_def stores_le_def case_prod_beta)

lemma differential_stores: "stores_le st (snd (differential np self args kwargs st))"
  using wrapper_store_grows [of "diff_cache st" "differential_func np (objects st)" "Obj self # args" kwargs "()"]
  by (simp add: differential_def stores_le_def case_prod_beta)

lemma autocorrelation_stores: "stores_le st (snd (autocorrelation np self args kwargs st))"
  using wrapper_store_grows [of "ac_cache st" "autocorrelation_func np (objects st)" "Obj self # args" kwargs "()"]
  by (simp add: autocorrelation_def stores_le_def case_prod_beta)

lemma find_extremes_stores: "stores_le st (snd (find_extremes self args kwargs st))"
  using wrapper_store_grows [of "fe_cache st" "find_extremes_func (objects st)" "Obj self # args" kwargs "()"]
  by (simp add: find_extremes_def stores_le_def case_prod_beta)

lemma process_data_body_stores: "stores_le st (snd (process_data_body np self st))"
proof (rule process_data_body_invariant [where P = "stores_le st"])
  show "stores_le st st"
    by (rule stores_le_refl)
next
  fix s a k
  assume s: "stores_le st s"
  show "stores_le st (snd (moving_average np self a k s))"
    using s moving_average_stores by (rule stores_le_trans)
  show "stores_le st (snd (differential np self a k s))"
    using s differential_stores by (rule stores_le_trans)
  show "stores_le st (snd (autocorrelation np self a k s))"
    using s autocorrelation_stores by (rule stores_le_trans)
  show "stores_le st (snd (find_extremes self a k s))"
    using s find_extremes_stores by (rule stores_le_trans)
qed

lemma process_data_func_stores: "stores_le st (snd (process_data_func np args kwargs st))"
  by (cases "bind0 args kwargs") (simp_all add: process_data_func_def stores_le_refl process_data_body_stores)

lemma process_data_stores: "stores_le st (snd (process_data np self args kwargs st))"
proof (cases "pd_cache st (make_key (Obj self # args) kwargs)")
  case (Some v)
  then show ?thesis
    by (simp add: process_data_def wrapper_def stores_le_refl)
next
  case None
  obtain r st1 where run: "process_data_func np (Obj self # args) kwargs st = (r, st1)"
    by (cases "process_data_func np (Obj self # args) kwargs st")
  from process_data_func_stores [of st np "Obj self # args" kwargs] run
  have le: "stores_le st st1"
    by simp
  show ?thesis
  proof (cases r)
    case (Inl e)
    with None run le show ?thesis
      by (simp add: process_data_def wrapper_def stores_le_def)
  next
    case (Inr v)
    have "pd_cache st \<subseteq>\<^sub>m (pd_cache st)(make_key (Obj self # args) kwargs \<mapsto> v)"
      using None by (auto simp: map_le_def)
    with None run le Inr show ?thesis
      by (simp add: process_data_def wrapper_def stores_le_def)
  qed
qed

lemma invoke_stores: "stores_le st (invoke np op self args kwargs st)"
  by (cases op)
    (simp_all add: invoke_def moving_average_stores differential_stores autocorrelation_stores
      find_extremes_stores process_data_stores)

lemma run_stores: "stores_le st (run np cs st)"
proof (induction cs arbitrary: st)
  case Nil
  then show ?case by (simp add: stores_le_refl)
next
  case (Cons c cs)
  obtain op self args kwargs where c: "c = (op, self, args, kwargs)"
    by (cases c)
  have "stores_le st (invoke np op self args kwargs st)"
    by (rule invoke_stores)
  moreover have "stores_le (invoke np op self args kwargs st) (run np cs (invoke np op self args kwargs st))"
    by (rule Cons.IH)
  ultimately show ?case
    unfolding c by (simp only: run.simps stores_le_trans)
qed

lemma wrapper_other_key:
  assumes "k \<noteq> make_key args kwargs"
  shows "fst (snd (wrapper func args kwargs (c, w))) k = c k"
proof -
  obtain r c' w' where run: "wrapper func args kwargs (c, w) = (r, (c', w'))"
    by (metis prod.exhaust)
  from wrapper_store_other [OF run assms] run show ?thesis
    by simp
qed

lemma foreign_entry:
  assumes "p \<noteq> self"
  shows "fst (snd (wrapper func (Obj p # a) kw (c, w))) (make_key (Obj self # args) kwargs) =
     c (make_key (Obj self # args) kwargs)"
  using assms by (intro wrapper_other_key) (auto simp: make_key_def)

lemma moving_average_lookup:
  assumes "p \<noteq> self"
  shows "lookup (snd (moving_average np p a kw s)) (make_key (Obj self # args) kwargs) =
     lookup s (make_key (Obj self # args) kwargs)"
  by (simp add: moving_average_def lookup_def case_prod_beta foreign_entry [OF assms])

lemma differential_lookup:
  assumes "p \<noteq> self"
  shows "lookup (snd (differential np p a kw s)) (make_key (Obj self # args) kwargs) =
     lookup s (make_key (Obj self # args) kwargs)"
  by (simp add: differential_def lookup_def case_prod_beta foreign_entry [OF assms])

lemma autocorrelation_lookup:
  assumes "p \<noteq> self"
  shows "lookup (snd (autocorrelation np p a kw s)) (make_key (Obj self # args) kwargs) =
     lookup s (make_key (Obj self # args) kwargs)"
  by (simp add: autocorrelation_def lookup_def case_prod_beta foreign_entry [OF assms])

lemma find_extremes_lookup:
  assumes "p \<noteq> self"
  shows "lookup (snd (find_extremes p a kw s)) (make_key (Obj self # args) kwargs) =
     lookup s (make_key (Obj self # args) kwargs)"
  by (simp add: find_extremes_def lookup_def case_prod_beta foreign_entry [OF assms])

lemma process_data_body_lookup:
  assumes "p \<noteq> self"
  shows "lookup (snd (process_data_body np p st)) (make_key (Obj self # args) kwargs) =
     lookup st (make_key (Obj self # args) kwargs)"
proof (rule process_data_body_invariant
    [where P = "\<lambda>s. lookup s (make_key (Obj self # args) kwargs) = lookup st (make_key (Obj self # args) kwargs)"])
  show "lookup st (make_key (Obj self # args) kwargs) = lookup st (make_key (Obj self # args) kwargs)"
    by (rule refl)
next
  fix s a k
  assume s: "lookup s (make_key (Obj self # args) kwargs) = lookup st (make_key (Obj self # args) kwargs)"
  show "lookup (snd (moving_average np p a k s)) (make_key (Obj self # args) kwargs) =
      lookup st (make_key (Obj self # args) kwargs)"
    by (simp only: moving_average_lookup [OF assms] s)
  show "lookup (snd (differential np p a k s)) (make_key (Obj self # args) kwargs) =
      lookup st (make_key (Obj self # args) kwargs)"
    by (simp only: differential_lookup [OF assms] s)
  show "lookup (snd (autocorrelation np p a k s)) (make_key (Obj self # args) kwargs) =
      lookup st (make_key (Obj self # args) kwargs)"
    by (simp only: autocorrelation_lookup [OF assms] s)
  show "lookup (snd (find_extremes p a k s)) (make_key (Obj self # args) kwargs) =
      lookup st (make_key (Obj self # args) kwargs)"
    by (simp only: find_extremes_lookup [OF assms] s)
qed

lemma process_data_func_lookup:
  assumes "p \<noteq> self"
  shows "lookup (snd (process_data_func np (Obj p # a) kw st)) (make_key (Obj self # args) kwargs) =
     lookup st (make_key (Obj self # args) kwargs)"
proof (cases "bind0 (Obj p # a) kw")
  case (Inl e)
  then show ?thesis
    by (simp add: process_data_func_def)
next
  case (Inr q)
  then have "q = p"
    by (auto simp: bind0_def split: list.splits if_splits)
  with Inr show ?thesis
    by (simp add: process_data_func_def process_data_body_lookup [OF assms])
qed

lemma process_data_lookup:
  assumes "p \<noteq> self"
  shows "lookup (snd (process_data np p a kw st)) (make_key (Obj self # args) kwargs) =
     lookup st (make_key (Obj self # args) kwargs)"
proof -
  let ?k = "make_key (Obj self # args) kwargs"
  let ?w = "wrapper (process_data_func np) (Obj p # a) kw (pd_cache st, st)"
  have state: "snd (process_data np p a kw st) = (snd (snd ?w))\<lparr>pd_cache := fst (snd ?w)\<rparr>"
    by (simp add: process_data_def case_prod_beta)
  have pd: "fst (snd ?w) ?k = pd_cache st ?k"
    by (rule foreign_entry [OF assms])
  have inner: "lookup (snd (snd ?w)) ?k = lookup st ?k"
  proof (cases "pd_cache st (make_key (Obj p # a) kw)")
    case (Some v)
    then show ?thesis
      by (simp add: wrapper_def)
  next
    case None
    then have "snd (snd ?w) = snd (process_data_func np (Obj p # a) kw st)"
      by (simp add: wrapper_def split: prod.splits sum.splits)
    then show ?thesis
      by (simp only: process_data_func_lookup [OF assms])
  qed
  from inner pd show ?thesis
    unfolding state by (simp add: lookup_def)
qed

lemma invoke_lookup:
  assumes "p \<noteq> self"
  shows "lookup (invoke np op p a kw st) (make_key (Obj self # args) kwargs) =
     lookup st (make_key (Obj self # args) kwargs)"
  using assms
  by (cases op)
    (simp_all add: invoke_def moving_average_lookup differential_lookup autocorrelation_lookup
      find_extremes_lookup process_data_lookup)

lemma run_lookup:
  assumes "\<forall>c\<in>set cs. receiver c \<noteq> self"
  shows "lookup (run np cs st) (make_key (Obj self # args) kwargs) =
     lookup st (make_key (Obj self # args) kwargs)"
  using assms
proof (induction cs arbitrary: st)
  case Nil
  then show ?case by simp
next
  case (Cons c cs)
  obtain op p a kw where c: "c = (op, p, a, kw)"
    by (cases c)
  from Cons.prems have p: "p \<noteq> self" and rest: "\<forall>c\<in>set cs. receiver c \<noteq> self"
    by (simp_all add: c receiver_def)
  have "lookup (run np cs (invoke np op p a kw st)) (make_key (Obj self # args) kwargs) =
      lookup (invoke np op p a kw st) (make_key (Obj self # args) kwargs)"
    using rest by (rule Cons.IH)
  also have "\<dots> = lookup st (make_key (Obj self # args) kwargs)"
    using p by (rule invoke_lookup)
  finally show ?case
    unfolding c by (simp only: run.simps)
qed

text \<open>
  C10, as stated, fails on the owner of the store and on the key: a dictionary belongs
  to a decorated method, not to a processor, and the key holds no operation. After
  \<^verbatim>\<open>moving_average(2)\<close> on two processors and \<^verbatim>\<open>autocorrelation(2)\<close> on the first, the
  dictionary of \<^verbatim>\<open>moving_average\<close> holds the entries of both processors, and the
  dictionary of \<^verbatim>\<open>autocorrelation\<close> holds an entry under the key that
  \<^verbatim>\<open>moving_average\<close> uses for the first.
\<close>

theorem one_store_for_all_processors:
  "\<forall>np. dom (ma_cache (run np [(MovingAverage, 0, [PyInt 2], []), (MovingAverage, 1, [PyInt 2], []),
             (Autocorrelation, 0, [PyInt 2], [])] (fresh (\<lambda>p. table3)))) =
          {([Obj 0, PyInt 2], []), ([Obj 1, PyInt 2], [])} \<and>
        dom (ac_cache (run np [(MovingAverage, 0, [PyInt 2], []), (MovingAverage, 1, [PyInt 2], []),
             (Autocorrelation, 0, [PyInt 2], [])] (fresh (\<lambda>p. table3)))) =
          {([Obj 0, PyInt 2], [])}"
  by (auto simp: invoke_def moving_average_def autocorrelation_def wrapper_def fresh_def make_key_def
      moving_average_func_def autocorrelation_func_def bind1_def moving_average_body_def
      autocorrelation_body_def getitem_def table3_def rolling_mean_def index_range_def
      autocorr_def shift_def)

text \<open>
  C10, amended. An entry is kept under the key made of the positional arguments, the
  processor first, and the keyword arguments, in the dictionary of the decorated
  method, which all processors share. Over any sequence of calls of the five methods
  on any processors, every entry of every dictionary stays, with its value: none is
  evicted or overwritten. Calls made on other processors change nothing of what the
  dictionaries hold under a key of processor \<open>self\<close>: a lookup on \<open>self\<close> is answered
  only by an entry that a call on \<open>self\<close> stored.
\<close>

theorem entries_persist:
  "stores_le st (run np cs st) \<and>
   ((\<forall>c\<in>set cs. receiver c \<noteq> self) \<longrightarrow>
      lookup (run np cs st) (make_key (Obj self # args) kwargs) =
        lookup st (make_key (Obj self # args) kwargs))"
  using run_stores [of st np cs] run_lookup [of cs self np st args kwargs] by blast

theorem entries_persist_witness:
  "\<forall>np. receiver (MovingAverage, 1, [PyInt 2], []) \<noteq> 0 \<and>
     receiver (ProcessData, 1, [], []) \<noteq> 0 \<and>
     stores_le (run np [(MovingAverage, 0, [PyInt 2], [])] (fresh (\<lambda>p. table3)))
       (run np [(MovingAverage, 1, [PyInt 2], []), (ProcessData, 1, [], [])]
          (run np [(MovingAverage, 0, [PyInt 2], [])] (fresh (\<lambda>p. table3)))) \<and>
     lookup (run np [(MovingAverage, 1, [PyInt 2], []), (ProcessData, 1, [], [])]
          (run np [(MovingAverage, 0, [PyInt 2], [])] (fresh (\<lambda>p. table3))))
        (make_key [Obj 0, PyInt 2] []) =
       lookup (run np [(MovingAverage, 0, [PyInt 2], [])] (fresh (\<lambda>p. table3)))
        (make_key [Obj 0, PyInt 2] [])"
proof
  fix np
  let ?st = "run np [(MovingAverage, 0, [PyInt 2], [])] (fresh (\<lambda>p. table3))"
  let ?cs = "[(MovingAverage, 1, [PyInt 2], []), (ProcessData, 1, [], [])]"
  have r1: "receiver (MovingAverage, 1, [PyInt 2], []) \<noteq> 0"
    and r2: "receiver (ProcessData, 1, [], []) \<noteq> 0"
    by (simp_all add: receiver_def)
  then have others: "\<forall>c\<in>set ?cs. receiver c \<noteq> 0"
    by simp
  note res = entries_persist [of ?st np ?cs 0 "[PyInt 2]" "[]"]
  from res have le: "stores_le ?st (run np ?cs ?st)"
    by (rule conjunct1)
  from res others have same: "lookup (run np ?cs ?st) (make_key [Obj 0, PyInt 2] []) =
      lookup ?st (make_key [Obj 0, PyInt 2] [])"
    by blast
  from r1 r2 le same
  show "receiver (MovingAverage, 1, [PyInt 2], []) \<noteq> 0 \<and>
     receiver (ProcessData, 1, [], []) \<noteq> 0 \<and>
     stores_le ?st (run np ?cs ?st) \<and>
     lookup (run np ?cs ?st) (make_key [Obj 0, PyInt 2] []) = lookup ?st (make_key [Obj 0, PyInt 2] [])"
    by (intro conjI)
qed

end
